theory Spec2Isabelle
  imports Complex_Main "HOL-Library.AList"
begin

section \<open>Data model of the relay\<close>

text \<open>
  The relay server of Impossible Writer, in the revision of \<open>server.js\<close> that has the
  \<open>/stats\<close> endpoint, the room id in the path or in the query, and the graceful shutdown.
  The relay is the class \<open>ImpossibleWriterRelay\<close>. Its instance state is three JavaScript
  \<open>Map\<close>s and a counter object. A JavaScript \<open>Map\<close> iterates in insertion order, \<open>set\<close> on
  an existing key keeps the key's position and \<open>set\<close> on a new key appends: that is
  \<open>AList.update\<close> on an association list, \<open>get\<close> is \<open>map_of\<close> and \<open>delete\<close> is
  \<open>AList.delete\<close>. The clock readings, the settings and the counters are integers and
  are modelled as \<open>int\<close>.
\<close>

text \<open>
  A number in a message. In a JavaScript value it is a double, given by its exact value, or
  one of the two infinities (\<open>JSON.parse\<close> returns no NaN; \<open>-0\<close> is taken as \<open>0\<close>, as
  \<open>JSON.stringify\<close> prints it). In a JSON text it is the exact value of the number literal.
\<close>

datatype number = Finite rat | Infinity | NegInfinity

text \<open>
  What \<open>JSON.parse\<close> returns and \<open>JSON.stringify\<close> takes; the same datatype gives a
  JSON text by what it says. The properties of an object are listed in the order of their
  assignment (JavaScript lists integer-like keys first; nothing below depends on the order).
\<close>

datatype json =
    JNull
  | JBool bool
  | JNum number
  | JStr string
  | JArr "json list"
  | JObj "(string \<times> json) list"

text \<open>\<open>this.config\<close>; the port and the log level have no effect on the relay state.\<close>

record config =
  rateLimit :: int
  rateLimitWindow :: int
  config_roomExpiry :: int
  cleanupInterval :: int

text \<open>The argument of the constructor: every setting may be absent.\<close>

record user_config =
  user_rateLimit :: "int option"
  user_rateLimitWindow :: "int option"
  user_roomExpiry :: "int option"
  user_cleanupInterval :: "int option"

text \<open>\<open>config.x || d\<close>: an absent setting and the falsy number 0 both give the default.\<close>

definition or_default :: "int option \<Rightarrow> int \<Rightarrow> int" where
  "or_default v d = (case v of None \<Rightarrow> d | Some x \<Rightarrow> if x = 0 then d else x)"

text \<open>An entry of \<open>userRates\<close>: \<open>{ count, resetTime }\<close>.\<close>

record rateData =
  count :: int
  resetTime :: int

record stats =
  messagesRelayed :: int
  connectionsTotal :: int
  disconnectionsTotal :: int
  rateLimitsHit :: int
  startTime :: int

text \<open>\<open>ws.readyState\<close> of the \<open>ws\<close> library.\<close>

datatype readyState = CONNECTING | OPEN | CLOSING | CLOSED

text \<open>
  What the relay has done to a socket's transport, in order: \<open>ws.send(JSON.stringify(m))\<close>
  is recorded as \<open>Sent m\<close>, \<open>ws.close(code, reason)\<close> as \<open>Closed code reason\<close>.
\<close>

datatype action = Sent json | Closed int string

text \<open>
  A WebSocket object with the properties the relay attaches to it (\<open>connectionId\<close>,
  \<open>roomId\<close>, \<open>joinedAt\<close>: undefined until \<open>handleConnection\<close> accepts the socket) and the
  two things of the library the relay uses: the ready state and the transport.
\<close>

record websocket =
  connectionId :: "string option"
  roomId :: "string option"
  joinedAt :: "int option"
  readyState :: readyState
  transport :: "action list"

text \<open>
  The instance state. Rooms are \<open>Set\<close>s of socket objects: a socket is a reference (a
  \<open>nat\<close>) into \<open>heap\<close>, and a \<open>Set\<close> is the list of its elements in insertion order.
\<close>

record relay =
  config :: config
  rooms :: "(string \<times> nat list) list"
  userRates :: "(string \<times> rateData) list"
  roomExpiry :: "(string \<times> int) list"
  stats :: stats
  heap :: "nat \<Rightarrow> websocket"

text \<open>A socket as the \<open>ws\<close> library hands it to the \<open>connection\<close> listener.\<close>

definition fresh_socket :: websocket where
  "fresh_socket = \<lparr>connectionId = None, roomId = None, joinedAt = None,
     readyState = OPEN, transport = []\<rparr>"

text \<open>The constructor, without the servers it starts; \<open>now\<close> is its \<open>Date.now()\<close>.\<close>

definition new_relay :: "user_config \<Rightarrow> int \<Rightarrow> relay" where
  "new_relay c now =
     \<lparr>config = \<lparr>rateLimit = or_default (user_rateLimit c) 100,
                 rateLimitWindow = or_default (user_rateLimitWindow c) 1000,
                 config_roomExpiry = or_default (user_roomExpiry c) (24 * 60 * 60 * 1000),
                 cleanupInterval = or_default (user_cleanupInterval c) (60 * 60 * 1000)\<rparr>,
      rooms = [], userRates = [], roomExpiry = [],
      stats = \<lparr>messagesRelayed = 0, connectionsTotal = 0, disconnectionsTotal = 0,
                rateLimitsHit = 0, startTime = now\<rparr>,
      heap = (\<lambda>_. fresh_socket)\<rparr>"

section \<open>Rate limiting\<close>

text \<open>
  \<open>checkRateLimit(connectionId)\<close>; \<open>now\<close> is its \<open>Date.now()\<close>. The entry is an object
  held by the map, so the assignments to \<open>rateData.count\<close> and \<open>rateData.resetTime\<close> are
  updates of the map. \<open>userRates\<close> only ever gets string keys, so looking up \<open>undefined\<close>
  finds nothing.
\<close>

fun checkRateLimit :: "relay \<Rightarrow> string option \<Rightarrow> int \<Rightarrow> bool \<times> relay" where
  "checkRateLimit s None now = (False, s)"
| "checkRateLimit s (Some cid) now =
     (case map_of (userRates s) cid of
        None \<Rightarrow> (False, s)
      | Some rateData \<Rightarrow>
          let rateData1 =
                (if now > resetTime rateData
                 then rateData\<lparr>count := 0, resetTime := now + rateLimitWindow (config s)\<rparr>
                 else rateData)
          in if count rateData1 \<ge> rateLimit (config s)
             then (False, s\<lparr>userRates := AList.update cid rateData1 (userRates s)\<rparr>)
             else (True, s\<lparr>userRates :=
                      AList.update cid (rateData1\<lparr>count := count rateData1 + 1\<rparr>) (userRates s)\<rparr>))"

text \<open>Successive calls for one connection at the given clock readings, with their results.\<close>

fun checkRateLimit_calls :: "relay \<Rightarrow> string \<Rightarrow> int list \<Rightarrow> bool list \<times> relay" where
  "checkRateLimit_calls s cid [] = ([], s)"
| "checkRateLimit_calls s cid (now # nows) =
     (case checkRateLimit s (Some cid) now of
        (ok, s1) \<Rightarrow> (case checkRateLimit_calls s1 cid nows of (oks, s2) \<Rightarrow> (ok # oks, s2)))"

section \<open>Sockets and sending\<close>

text \<open>\<open>ws.send(JSON.stringify(message))\<close> on socket \<open>ws\<close>.\<close>

definition ws_send :: "nat \<Rightarrow> json \<Rightarrow> relay \<Rightarrow> relay" where
  "ws_send ws message s =
     s\<lparr>heap := (heap s)(ws := (heap s ws)\<lparr>transport := transport (heap s ws) @ [Sent message]\<rparr>)\<rparr>"

text \<open>
  \<open>ws.close(code, reason)\<close>: the call is recorded; the library starts the closing
  handshake, which leaves a socket that is not yet closed in state \<open>CLOSING\<close>. The
  \<open>close\<close> event comes later, as an event of its own.
\<close>

definition ws_close :: "nat \<Rightarrow> int \<Rightarrow> string \<Rightarrow> relay \<Rightarrow> relay" where
  "ws_close ws code reason s =
     s\<lparr>heap := (heap s)(ws := (heap s ws)
        \<lparr>readyState := (if readyState (heap s ws) = CLOSED then CLOSED else CLOSING),
         transport := transport (heap s ws) @ [Closed code reason]\<rparr>)\<rparr>"

text \<open>\<open>sendToClient(ws, message)\<close>; a failing \<open>send\<close> is caught and only logged.\<close>

definition sendToClient :: "relay \<Rightarrow> nat \<Rightarrow> json \<Rightarrow> relay" where
  "sendToClient s ws message =
     (if readyState (heap s ws) = OPEN then ws_send ws message s else s)"

text \<open>\<open>broadcastToRoom(roomId, message, excludeWs = null)\<close>.\<close>

definition broadcastToRoom :: "relay \<Rightarrow> string \<Rightarrow> json \<Rightarrow> nat option \<Rightarrow> relay" where
  "broadcastToRoom s rid message excludeWs =
     (case map_of (rooms s) rid of
        None \<Rightarrow> s
      | Some room \<Rightarrow>
          fold (\<lambda>ws s'. if Some ws \<noteq> excludeWs \<and> readyState (heap s' ws) = OPEN
                         then ws_send ws message s' else s') room s)"

section \<open>Server messages\<close>

definition connected_message :: "string \<Rightarrow> string \<Rightarrow> int \<Rightarrow> json" where
  "connected_message cid rid userCount =
     JObj [(''type'', JStr ''connected''), (''connectionId'', JStr cid),
           (''roomId'', JStr rid), (''userCount'', JNum (Finite (of_int userCount)))]"

definition user_joined_message :: "string \<Rightarrow> int \<Rightarrow> json" where
  "user_joined_message cid userCount =
     JObj [(''type'', JStr ''user-joined''), (''connectionId'', JStr cid),
           (''userCount'', JNum (Finite (of_int userCount)))]"

definition user_left_message :: "string \<Rightarrow> int \<Rightarrow> json" where
  "user_left_message cid userCount =
     JObj [(''type'', JStr ''user-left''), (''connectionId'', JStr cid),
           (''userCount'', JNum (Finite (of_int userCount)))]"

definition error_message :: "string \<Rightarrow> string \<Rightarrow> json" where
  "error_message text code =
     JObj [(''type'', JStr ''error''), (''message'', JStr text), (''code'', JStr code)]"

definition rate_limit_error :: json where
  "rate_limit_error =
     error_message ''Rate limit exceeded (100 messages/second)'' ''RATE_LIMIT_EXCEEDED''"

definition invalid_message_error :: json where
  "invalid_message_error = error_message ''Message must have a type field'' ''INVALID_MESSAGE''"

definition parse_error :: json where
  "parse_error = error_message ''Invalid message format - must be valid JSON'' ''PARSE_ERROR''"

definition room_expired_message :: json where
  "room_expired_message =
     JObj [(''type'', JStr ''room-expired''), (''message'', JStr ''Room expired after 24 hours'')]"

section \<open>Accepting a connection\<close>

text \<open>\<open>str.split(c)\<close> for a one-character separator: never an empty array.\<close>

fun split :: "char \<Rightarrow> string \<Rightarrow> string list" where
  "split c [] = [[]]"
| "split c (x # xs) =
     (if x = c then [] # split c xs
      else (case split c xs of [] \<Rightarrow> [[x]] | part # parts \<Rightarrow> (x # part) # parts))"

text \<open>\<open>Array.prototype.toString\<close> of an array of strings: joined by commas.\<close>

fun join_comma :: "string list \<Rightarrow> string" where
  "join_comma [] = []"
| "join_comma [v] = v"
| "join_comma (v # vs) = v @ '','' @ join_comma vs"

text \<open>
  \<open>query.room\<close> of \<open>url.parse(req.url, true)\<close>, given the values of the parameter
  \<open>room\<close> in the query string in order: none is \<open>undefined\<close>, one is that string, several
  are an array of them. The result is the value as a string when it is truthy (an empty
  string is not, an array always is): the string is what the format test and the logs
  see, and an array of several values has a comma in it.
\<close>

definition query_room :: "string list \<Rightarrow> string option" where
  "query_room values =
     (case values of
        [] \<Rightarrow> None
      | [v] \<Rightarrow> if v = [] then None else Some v
      | _ \<Rightarrow> Some (join_comma values))"

text \<open>The first lines of \<open>handleConnection\<close>: \<open>roomId\<close>, or \<open>None\<close> where it stays \<open>null\<close>.\<close>

definition resolve_roomId :: "string \<Rightarrow> string list \<Rightarrow> string option" where
  "resolve_roomId pathname values =
     (if take 6 pathname = ''/room/''
      then (let pathParts = filter (\<lambda>part. length part > 0) (split CHR ''/'' pathname)
            in if length pathParts \<ge> 2 then Some (pathParts ! 1) else None)
      else query_room values)"

text \<open>The test \<open>/^[a-zA-Z0-9_-]+$/\<close>.\<close>

definition roomId_char :: "char \<Rightarrow> bool" where
  "roomId_char c =
     (c \<in> set ''abcdefghijklmnopqrstuvwxyzABCDEFGHIJKLMNOPQRSTUVWXYZ0123456789_-'')"

definition roomId_format :: "string \<Rightarrow> bool" where
  "roomId_format r = (r \<noteq> [] \<and> list_all roomId_char r)"

definition room_required :: string where
  "room_required = ''Room ID required. Use /room/{roomId} or /?room={roomId}''"

definition room_invalid :: string where
  "room_invalid =
     ''Invalid room ID format. Use alphanumeric characters, dash, or underscore only.''"

text \<open>\<open>room.add(ws)\<close> and \<open>room.delete(ws)\<close> on a \<open>Set\<close>.\<close>

definition Set_add :: "nat \<Rightarrow> nat list \<Rightarrow> nat list" where
  "Set_add ws room = (if ws \<in> set room then room else room @ [ws])"

definition Set_delete :: "nat \<Rightarrow> nat list \<Rightarrow> nat list" where
  "Set_delete ws room = removeAll ws room"

text \<open>\<open>this.rooms.get(roomId).size\<close>, read where the room exists.\<close>

definition room_size :: "relay \<Rightarrow> string \<Rightarrow> int" where
  "room_size s r = (case map_of (rooms s) r of None \<Rightarrow> 0 | Some room \<Rightarrow> int (length room))"

text \<open>
  \<open>handleConnection(ws, req)\<close>. Of the request it takes the parsed \<open>pathname\<close> and the
  values of the query parameter \<open>room\<close>; \<open>randomId\<close> is the outcome of
  \<open>crypto.randomBytes(8).toString('hex')\<close>, and \<open>now1\<close>, \<open>now2\<close>, \<open>now3\<close> are its three
  readings of \<open>Date.now()\<close>, in the order of the source. The listeners it attaches at the
  end are the events \<open>Message\<close>, \<open>CloseEvent\<close> and \<open>ErrorEvent\<close> below.
\<close>

definition handleConnection ::
  "relay \<Rightarrow> nat \<Rightarrow> string \<Rightarrow> string list \<Rightarrow> string \<Rightarrow> int \<Rightarrow> int \<Rightarrow> int \<Rightarrow> relay" where
  "handleConnection s ws pathname values randomId now1 now2 now3 =
     (case resolve_roomId pathname values of
        None \<Rightarrow> ws_close ws 1008 room_required s
      | Some rid \<Rightarrow>
          if rid = [] then ws_close ws 1008 room_required s
          else if \<not> roomId_format rid then ws_close ws 1008 room_invalid s
          else
            let s1 = s\<lparr>heap := (heap s)(ws := (heap s ws)
                       \<lparr>connectionId := Some randomId, roomId := Some rid,
                        joinedAt := Some now1\<rparr>)\<rparr>;
                s2 = s1\<lparr>userRates := AList.update randomId
                       \<lparr>count = 0, resetTime = now2 + rateLimitWindow (config s1)\<rparr>
                       (userRates s1)\<rparr>;
                s3 = (if map_of (rooms s2) rid = None
                      then s2\<lparr>rooms := AList.update rid [] (rooms s2),
                              roomExpiry := AList.update rid
                                (now3 + config_roomExpiry (config s2)) (roomExpiry s2)\<rparr>
                      else s2);
                s4 = s3\<lparr>rooms := AList.map_entry rid (Set_add ws) (rooms s3),
                        stats := (stats s3)\<lparr>connectionsTotal :=
                                   connectionsTotal (stats s3) + 1\<rparr>\<rparr>;
                userCount = room_size s4 rid;
                s5 = sendToClient s4 ws (connected_message randomId rid userCount)
            in broadcastToRoom s5 rid (user_joined_message randomId userCount) (Some ws))"

section \<open>Relaying a message\<close>

text \<open>JavaScript truthiness of a JSON value.\<close>

fun truthy :: "json \<Rightarrow> bool" where
  "truthy JNull = False"
| "truthy (JBool b) = b"
| "truthy (JNum n) = (n \<noteq> Finite 0)"
| "truthy (JStr x) = (x \<noteq> [])"
| "truthy (JArr _) = True"
| "truthy (JObj _) = True"

text \<open>
  \<open>message.type\<close> of a parsed value other than \<open>null\<close>: a property of an object;
  \<open>undefined\<close> on a number, a string, a boolean and an array.
\<close>

fun message_type :: "json \<Rightarrow> json option" where
  "message_type (JObj props) = map_of props ''type''"
| "message_type _ = None"

text \<open>
  \<open>message.connectionId = ws.connectionId; message.timestamp = Date.now()\<close>, as
  \<open>JSON.stringify\<close> shows the result: assigning keeps the place of an existing key and
  appends a new one, and a property set to \<open>undefined\<close> is not serialised. Only an object
  with a truthy \<open>type\<close> gets here.
\<close>

fun stamp :: "json \<Rightarrow> string option \<Rightarrow> int \<Rightarrow> json" where
  "stamp (JObj props) (Some cid) now =
     JObj (AList.update ''timestamp'' (JNum (Finite (of_int now)))
             (AList.update ''connectionId'' (JStr cid) props))"
| "stamp (JObj props) None now =
     JObj (AList.update ''timestamp'' (JNum (Finite (of_int now)))
             (AList.delete ''connectionId'' props))"
| "stamp message _ _ = message"

text \<open>
  \<open>JSON.parse\<close> reads a number literal as the double nearest to its exact value, a tie
  going to the double with the even significand, and as an infinity from \<open>2^1024 - 2^970\<close>
  on. \<open>log2_floor a\<close> is the \<open>e\<close> with \<open>2^e \<le> a < 2^(e+1)\<close> for \<open>a \<ge> 1\<close>, \<open>exponent\<close>
  the same for every \<open>a > 0\<close>; a double has 53 significant bits and no bit below
  \<open>2^-1074\<close>.
\<close>

function log2_floor :: "rat \<Rightarrow> nat" where
  "log2_floor a = (if a < 2 then 0 else Suc (log2_floor (a / 2)))"
  by pat_completeness auto
termination
  by (relation "measure (\<lambda>a. nat \<lfloor>a\<rfloor>)") (auto simp: floor_divide_of_nat_eq, linarith)

definition exponent :: "rat \<Rightarrow> int" where
  "exponent a =
     (if 1 \<le> a then int (log2_floor a)
      else let e = int (log2_floor (1 / a))
           in if a * 2 powi e = 1 then - e else - e - 1)"

definition round_half_even :: "rat \<Rightarrow> int" where
  "round_half_even r =
     (let f = \<lfloor>r\<rfloor>; d = r - of_int f
      in if d < 1 / 2 then f else if 1 / 2 < d then f + 1 else if even f then f else f + 1)"

definition to_double :: "rat \<Rightarrow> number" where
  "to_double x =
     (if x = 0 then Finite 0
      else let a = \<bar>x\<bar>;
               q = max (exponent a - 52) (- 1074);
               v = of_int (round_half_even (a / 2 powi q)) * 2 powi q
           in if 2 powi 1024 \<le> v then (if 0 < x then Infinity else NegInfinity)
              else Finite (sgn x * v))"

text \<open>Of a key that a JSON text repeats, \<open>JSON.parse\<close> keeps the last value.\<close>

definition last_wins :: "(string \<times> json) list \<Rightarrow> (string \<times> json) list" where
  "last_wins props = fold (\<lambda>(k, v) acc. AList.update k v acc) props []"

text \<open>\<open>JSON.parse(text)\<close> for a text that parses, the text given by what it says.\<close>

primrec JSON_parse :: "json \<Rightarrow> json" where
  "JSON_parse JNull = JNull"
| "JSON_parse (JBool b) = JBool b"
| "JSON_parse (JNum n) = JNum (case n of Finite x \<Rightarrow> to_double x | _ \<Rightarrow> n)"
| "JSON_parse (JStr x) = JStr x"
| "JSON_parse (JArr vs) = JArr (map JSON_parse vs)"
| "JSON_parse (JObj props) = JObj (last_wins (map (map_prod id JSON_parse) props))"

text \<open>
  The text that \<open>JSON.stringify(value)\<close> prints, given by what it says to a reader of
  doubles: a finite number is printed so that it reads back as the same double, an
  infinity is printed as \<open>null\<close>.
\<close>

primrec JSON_stringify :: "json \<Rightarrow> json" where
  "JSON_stringify JNull = JNull"
| "JSON_stringify (JBool b) = JBool b"
| "JSON_stringify (JNum n) = (case n of Finite x \<Rightarrow> JNum (Finite x) | _ \<Rightarrow> JNull)"
| "JSON_stringify (JStr x) = JStr x"
| "JSON_stringify (JArr vs) = JArr (map JSON_stringify vs)"
| "JSON_stringify (JObj props) = JObj (map (map_prod id JSON_stringify) props)"

text \<open>
  \<open>handleMessage(ws, data)\<close>. \<open>data\<close> is given by what \<open>JSON.parse(data)\<close> does with it:
  \<open>None\<close> where it throws, the parsed value otherwise. \<open>now1\<close> is the \<open>Date.now()\<close> of
  \<open>checkRateLimit\<close>, \<open>now2\<close> the one of the stamp. Reading \<open>message.type\<close> of \<open>null\<close>
  throws a TypeError inside the \<open>try\<close>, so it ends in the same \<open>catch\<close> as a parse error.
\<close>

definition handleMessage :: "relay \<Rightarrow> nat \<Rightarrow> json option \<Rightarrow> int \<Rightarrow> int \<Rightarrow> relay" where
  "handleMessage s ws data now1 now2 =
     (case checkRateLimit s (connectionId (heap s ws)) now1 of
        (False, s1) \<Rightarrow>
          sendToClient (s1\<lparr>stats := (stats s1)\<lparr>rateLimitsHit := rateLimitsHit (stats s1) + 1\<rparr>\<rparr>)
            ws rate_limit_error
      | (True, s1) \<Rightarrow>
          (case data of
             None \<Rightarrow> sendToClient s1 ws parse_error
           | Some JNull \<Rightarrow> sendToClient s1 ws parse_error
           | Some message \<Rightarrow>
               if \<not> (case message_type message of None \<Rightarrow> False | Some t \<Rightarrow> truthy t)
               then sendToClient s1 ws invalid_message_error
               else
                 let message1 = stamp message (connectionId (heap s1 ws)) now2;
                     s2 = (case roomId (heap s1 ws) of
                             None \<Rightarrow> s1
                           | Some rid \<Rightarrow> broadcastToRoom s1 rid message1 (Some ws))
                 in s2\<lparr>stats := (stats s2)\<lparr>messagesRelayed :=
                                   messagesRelayed (stats s2) + 1\<rparr>\<rparr>))"

section \<open>Disconnecting\<close>

text \<open>
  \<open>handleDisconnection(ws)\<close>; \<open>room\<close> is the \<open>Set\<close> held by the map, so \<open>room.delete(ws)\<close>
  changes the map's entry. The session duration it computes is only logged.
\<close>

definition handleDisconnection :: "relay \<Rightarrow> nat \<Rightarrow> relay" where
  "handleDisconnection s ws =
     (case (roomId (heap s ws), connectionId (heap s ws)) of
        (Some rid, Some cid) \<Rightarrow>
          if rid = [] \<or> cid = [] then s
          else
            (case map_of (rooms s) rid of
               None \<Rightarrow> s
             | Some room \<Rightarrow>
                 let room1 = Set_delete ws room;
                     s1 = s\<lparr>rooms := AList.update rid room1 (rooms s),
                            stats := (stats s)\<lparr>disconnectionsTotal :=
                                       disconnectionsTotal (stats s) + 1\<rparr>\<rparr>;
                     s2 = broadcastToRoom s1 rid
                            (user_left_message cid (int (length room1))) None;
                     s3 = (if length room1 = 0
                           then s2\<lparr>rooms := AList.delete rid (rooms s2),
                                   roomExpiry := AList.delete rid (roomExpiry s2)\<rparr>
                           else s2)
                 in s3\<lparr>userRates := AList.delete cid (userRates s3)\<rparr>)
      | _ \<Rightarrow> s)"

text \<open>
  \<open>handleDisconnection(ws)\<close> as the earlier revision of the file has it
  (\<open>src/server.js\<close>): the work on the room is inside \<open>if (room) { ... }\<close>, and the
  rate state is deleted after it in every case. That revision has no counters.
\<close>

definition handleDisconnection_earlier :: "relay \<Rightarrow> nat \<Rightarrow> relay" where
  "handleDisconnection_earlier s ws =
     (case (roomId (heap s ws), connectionId (heap s ws)) of
        (Some rid, Some cid) \<Rightarrow>
          if rid = [] \<or> cid = [] then s
          else
            let s3 = (case map_of (rooms s) rid of
                        None \<Rightarrow> s
                      | Some room \<Rightarrow>
                          let room1 = Set_delete ws room;
                              s1 = s\<lparr>rooms := AList.update rid room1 (rooms s)\<rparr>;
                              s2 = broadcastToRoom s1 rid
                                     (user_left_message cid (int (length room1))) None
                          in if length room1 = 0
                             then s2\<lparr>rooms := AList.delete rid (rooms s2),
                                     roomExpiry := AList.delete rid (roomExpiry s2)\<rparr>
                             else s2)
            in s3\<lparr>userRates := AList.delete cid (userRates s3)\<rparr>
      | _ \<Rightarrow> s)"

section \<open>The cleanup interval\<close>

text \<open>The body of the second \<open>forEach\<close> of the interval's callback, for one room id.\<close>

definition expire_room :: "string \<Rightarrow> relay \<Rightarrow> relay" where
  "expire_room rid s =
     (case map_of (rooms s) rid of
        None \<Rightarrow> s
      | Some room \<Rightarrow>
          let s1 = fold (\<lambda>ws s'. ws_close ws 1000 ''Room expired after 24 hours''
                                   (sendToClient s' ws room_expired_message)) room s
          in s1\<lparr>rooms := AList.delete rid (rooms s1),
                roomExpiry := AList.delete rid (roomExpiry s1)\<rparr>)"

text \<open>The first \<open>forEach\<close>: the ids whose deadline has passed, in the map's order.\<close>

definition expiredRooms :: "relay \<Rightarrow> int \<Rightarrow> string list" where
  "expiredRooms s now = map fst (filter (\<lambda>(rid, expiry). now > expiry) (roomExpiry s))"

text \<open>One run of the callback of \<open>startCleanupInterval\<close>; \<open>now\<close> is its \<open>Date.now()\<close>.\<close>

definition cleanup :: "relay \<Rightarrow> int \<Rightarrow> relay" where
  "cleanup s now =
     (if length (expiredRooms s now) = 0 then s
      else fold expire_room (expiredRooms s now) s)"

section \<open>Events\<close>

text \<open>
  The relay is driven by events: a new connection, a message, a \<open>close\<close> or an \<open>error\<close>
  of a socket (both listeners call \<open>handleDisconnection\<close>), a tick of the cleanup
  interval, and a change of a socket's ready state by the network (the peer closing,
  the connection dropping), which the relay only observes.
\<close>

datatype event =
    Connection nat string "string list" string int int int
  | Message nat "json option" int int
  | CloseEvent nat
  | ErrorEvent nat
  | CleanupTick int
  | TransportState nat readyState

fun step :: "relay \<Rightarrow> event \<Rightarrow> relay" where
  "step s (Connection ws pathname values randomId now1 now2 now3) =
     handleConnection s ws pathname values randomId now1 now2 now3"
| "step s (Message ws data now1 now2) = handleMessage s ws data now1 now2"
| "step s (CloseEvent ws) = handleDisconnection s ws"
| "step s (ErrorEvent ws) = handleDisconnection s ws"
| "step s (CleanupTick now) = cleanup s now"
| "step s (TransportState ws st) = s\<lparr>heap := (heap s)(ws := (heap s ws)\<lparr>readyState := st\<rparr>)\<rparr>"

text \<open>The outcome of \<open>crypto.randomBytes(8).toString('hex')\<close>: sixteen hexadecimal digits.\<close>

definition hex_id :: "string \<Rightarrow> bool" where
  "hex_id cid = (length cid = 16 \<and> list_all (\<lambda>c. c \<in> set ''0123456789abcdef'') cid)"

text \<open>
  When an event can happen: a connection brings a socket the relay has not seen, the
  listeners of a socket exist once \<open>handleConnection\<close> has accepted it (it has its
  \<open>connectionId\<close> then), and the network only closes sockets.
\<close>

fun enabled :: "relay \<Rightarrow> event \<Rightarrow> bool" where
  "enabled s (Connection ws pathname values randomId now1 now2 now3) =
     (heap s ws = fresh_socket \<and> hex_id randomId)"
| "enabled s (Message ws data now1 now2) = (connectionId (heap s ws) \<noteq> None)"
| "enabled s (CloseEvent ws) = (connectionId (heap s ws) \<noteq> None)"
| "enabled s (ErrorEvent ws) = (connectionId (heap s ws) \<noteq> None)"
| "enabled s (CleanupTick now) = True"
| "enabled s (TransportState ws st) = (st = CLOSING \<or> st = CLOSED)"

text \<open>Running a list of events, and whether each is enabled when its turn comes.\<close>

fun run :: "relay \<Rightarrow> event list \<Rightarrow> relay" where
  "run s [] = s"
| "run s (e # es) = run (step s e) es"

fun enabled_all :: "relay \<Rightarrow> event list \<Rightarrow> bool" where
  "enabled_all s [] = True"
| "enabled_all s (e # es) = (enabled s e \<and> enabled_all (step s e) es)"

text \<open>The states the relay can be in: those the events lead to from a new relay.\<close>

inductive reachable :: "relay \<Rightarrow> bool" where
  reachable_new: "reachable (new_relay c now)"
| reachable_step: "reachable s \<Longrightarrow> enabled s e \<Longrightarrow> reachable (step s e)"

section \<open>Notions used in the proofs\<close>

text \<open>The sends of a broadcast over a \<open>Set\<close>, as one update of the heap.\<close>

definition deliver :: "nat set \<Rightarrow> json \<Rightarrow> (nat \<Rightarrow> websocket) \<Rightarrow> nat \<Rightarrow> websocket" where
  "deliver to m h w =
     (if w \<in> to \<and> readyState (h w) = OPEN
      then (h w)\<lparr>transport := transport (h w) @ [Sent m]\<rparr> else h w)"

text \<open>
  The invariant of the registry: the two maps have the same keys, and every room has a
  member, holds each member once, has a well-formed id, and is the room that each of its
  members names in \<open>roomId\<close>; every member has its \<open>connectionId\<close>.
\<close>

definition registry_ok :: "relay \<Rightarrow> bool" where
  "registry_ok s =
     ((\<forall>r. (map_of (rooms s) r = None) = (map_of (roomExpiry s) r = None)) \<and>
      (\<forall>r room. map_of (rooms s) r = Some room \<longrightarrow>
         room \<noteq> [] \<and> distinct room \<and> roomId_format r \<and>
         (\<forall>w\<in>set room. roomId (heap s w) = Some r \<and>
            (\<exists>cid. connectionId (heap s w) = Some cid \<and> cid \<noteq> []))))"

text \<open>The state of \<open>handleConnection\<close> after it has registered the socket, before it sends.\<close>

definition joined :: "relay \<Rightarrow> nat \<Rightarrow> string \<Rightarrow> string \<Rightarrow> int \<Rightarrow> int \<Rightarrow> int \<Rightarrow> relay" where
  "joined s ws rid randomId now1 now2 now3 =
     (let s1 = s\<lparr>heap := (heap s)(ws := (heap s ws)
                  \<lparr>connectionId := Some randomId, roomId := Some rid,
                   joinedAt := Some now1\<rparr>)\<rparr>;
          s2 = s1\<lparr>userRates := AList.update randomId
                  \<lparr>count = 0, resetTime = now2 + rateLimitWindow (config s1)\<rparr>
                  (userRates s1)\<rparr>;
          s3 = (if map_of (rooms s2) rid = None
                then s2\<lparr>rooms := AList.update rid [] (rooms s2),
                        roomExpiry := AList.update rid
                          (now3 + config_roomExpiry (config s2)) (roomExpiry s2)\<rparr>
                else s2)
      in s3\<lparr>rooms := AList.map_entry rid (Set_add ws) (rooms s3),
            stats := (stats s3)\<lparr>connectionsTotal := connectionsTotal (stats s3) + 1\<rparr>\<rparr>)"

text \<open>Closing the members of an expired room, as one update of the heap.\<close>

definition expel :: "nat set \<Rightarrow> (nat \<Rightarrow> websocket) \<Rightarrow> nat \<Rightarrow> websocket" where
  "expel members h w =
     (if w \<in> members
      then (h w)\<lparr>readyState := (if readyState (h w) = CLOSED then CLOSED else CLOSING),
                 transport := transport (h w) @
                   (if readyState (h w) = OPEN then [Sent room_expired_message] else []) @
                   [Closed 1000 ''Room expired after 24 hours'']\<rparr>
      else h w)"

text \<open>A relay with limit 3 and window 1000, and a first connection to room \<open>doc1\<close>.\<close>

definition limit3 :: user_config where
  "limit3 = \<lparr>user_rateLimit = Some 3, user_rateLimitWindow = Some 1000,
     user_roomExpiry = None, user_cleanupInterval = None\<rparr>"

definition alice :: event where
  "alice = Connection 1 ''/room/doc1'' [] ''00000000000000a1'' 10 10 10"

text \<open>The room is in the registry after each of the events: it is never emptied.\<close>

fun room_kept :: "relay \<Rightarrow> string \<Rightarrow> event list \<Rightarrow> bool" where
  "room_kept s r [] = True"
| "room_kept s r (e # es) = (map_of (rooms (step s e)) r \<noteq> None \<and> room_kept (step s e) r es)"

text \<open>A second connection to room \<open>doc1\<close>.\<close>

definition bob :: event where
  "bob = Connection 2 ''/room/doc1'' [] ''00000000000000b2'' 20 20 20"

text \<open>The members of the room that a socket names in its \<open>roomId\<close>.\<close>

definition room_of :: "relay \<Rightarrow> nat \<Rightarrow> nat list" where
  "room_of s ws =
     (case roomId (heap s ws) of
        None \<Rightarrow> []
      | Some rid \<Rightarrow> (case map_of (rooms s) rid of None \<Rightarrow> [] | Some room \<Rightarrow> room))"

text \<open>What \<open>sendToClient\<close> adds to the transport of a socket.\<close>

definition sent_if_open :: "relay \<Rightarrow> nat \<Rightarrow> json \<Rightarrow> action list" where
  "sent_if_open s ws m = (if readyState (heap s ws) = OPEN then [Sent m] else [])"

text \<open>A message with a type and a payload, as the first connection sends it.\<close>

definition content26 :: json where
  "content26 = JObj [(''type'', JStr ''content26''), (''data'', JObj [(''x'', JNum (Finite 1))])]"

text \<open>A connection to another room, \<open>doc2\<close>, by the query form.\<close>

definition carol :: event where
  "carol = Connection 3 ''/'' [''doc2''] ''00000000000000c3'' 25 25 25"

text \<open>The ids that \<open>handleConnection\<close> gives a socket are not empty.\<close>

definition ids_ok :: "relay \<Rightarrow> bool" where
  "ids_ok s = (\<forall>w. connectionId (heap s w) \<noteq> Some [] \<and> roomId (heap s w) \<noteq> Some [])"

text \<open>\<open>value[k]\<close>: a property of an object; \<open>undefined\<close> on every other value.\<close>

fun property :: "json \<Rightarrow> string \<Rightarrow> json option" where
  "property (JObj props) k = map_of props k"
| "property _ k = None"

text \<open>
  A JSON text that reads back as it was written: every number in it is a double, and no
  object in it repeats a key.
\<close>

fun plain :: "json \<Rightarrow> bool" where
  "plain (JNum n) = (case n of Finite x \<Rightarrow> to_double x = Finite x | _ \<Rightarrow> False)"
| "plain (JArr vs) = (\<forall>v\<in>set vs. plain v)"
| "plain (JObj props) = (distinct (map fst props) \<and> (\<forall>p\<in>set props. plain (snd p)))"
| "plain _ = True"

section \<open>Lemmas\<close>

subsection \<open>Sending leaves the registry alone\<close>

lemma ws_send_fields [simp]:
  "config (ws_send w m s) = config s" "rooms (ws_send w m s) = rooms s"
  "userRates (ws_send w m s) = userRates s" "roomExpiry (ws_send w m s) = roomExpiry s"
  "stats (ws_send w m s) = stats s"
  by (simp_all add: ws_send_def)

lemma ws_send_heap:
  "heap (ws_send w m s) =
     (heap s)(w := (heap s w)\<lparr>transport := transport (heap s w) @ [Sent m]\<rparr>)"
  by (simp add: ws_send_def)

lemma ws_close_fields [simp]:
  "config (ws_close w c t s) = config s" "rooms (ws_close w c t s) = rooms s"
  "userRates (ws_close w c t s) = userRates s" "roomExpiry (ws_close w c t s) = roomExpiry s"
  "stats (ws_close w c t s) = stats s"
  by (simp_all add: ws_close_def)

lemma sendToClient_fields [simp]:
  "config (sendToClient s w m) = config s" "rooms (sendToClient s w m) = rooms s"
  "userRates (sendToClient s w m) = userRates s" "roomExpiry (sendToClient s w m) = roomExpiry s"
  "stats (sendToClient s w m) = stats s"
  by (simp_all add: sendToClient_def)

lemma fold_send:
  "distinct room \<Longrightarrow>
   fold (\<lambda>ws s'. if Some ws \<noteq> ex \<and> readyState (heap s' ws) = OPEN
                  then ws_send ws m s' else s') room s =
   s\<lparr>heap := deliver {w \<in> set room. Some w \<noteq> ex} m (heap s)\<rparr>"
proof (induction room arbitrary: s)
  case Nil
  then show ?case by (simp add: deliver_def)
next
  case (Cons a room)
  then show ?case
    by (auto simp: deliver_def ws_send_def fun_eq_iff intro!: relay.equality)
qed

lemma broadcastToRoom_absent:
  "map_of (rooms s) r = None \<Longrightarrow> broadcastToRoom s r m ex = s"
  by (simp add: broadcastToRoom_def)

lemma broadcastToRoom_present:
  "map_of (rooms s) r = Some room \<Longrightarrow> distinct room \<Longrightarrow>
   broadcastToRoom s r m ex = s\<lparr>heap := deliver {w \<in> set room. Some w \<noteq> ex} m (heap s)\<rparr>"
  by (simp add: broadcastToRoom_def fold_send)

lemma broadcastToRoom_fields [simp]:
  "config (broadcastToRoom s r m ex) = config s" "rooms (broadcastToRoom s r m ex) = rooms s"
  "userRates (broadcastToRoom s r m ex) = userRates s"
  "roomExpiry (broadcastToRoom s r m ex) = roomExpiry s"
  "stats (broadcastToRoom s r m ex) = stats s"
proof -
  have "\<And>room. 
     config (fold (\<lambda>ws s'. if Some ws \<noteq> ex \<and> readyState (heap s' ws) = OPEN
                  then ws_send ws m s' else s') room s) = config s \<and>
     rooms (fold (\<lambda>ws s'. if Some ws \<noteq> ex \<and> readyState (heap s' ws) = OPEN
                  then ws_send ws m s' else s') room s) = rooms s \<and>
     userRates (fold (\<lambda>ws s'. if Some ws \<noteq> ex \<and> readyState (heap s' ws) = OPEN
                  then ws_send ws m s' else s') room s) = userRates s \<and>
     roomExpiry (fold (\<lambda>ws s'. if Some ws \<noteq> ex \<and> readyState (heap s' ws) = OPEN
                  then ws_send ws m s' else s') room s) = roomExpiry s \<and>
     stats (fold (\<lambda>ws s'. if Some ws \<noteq> ex \<and> readyState (heap s' ws) = OPEN
                  then ws_send ws m s' else s') room s) = stats s"
    subgoal for room by (induction room arbitrary: s) auto
    done
  then show "config (broadcastToRoom s r m ex) = config s" "rooms (broadcastToRoom s r m ex) = rooms s"
  "userRates (broadcastToRoom s r m ex) = userRates s"
  "roomExpiry (broadcastToRoom s r m ex) = roomExpiry s"
  "stats (broadcastToRoom s r m ex) = stats s"
    by (simp_all add: broadcastToRoom_def split: option.split)
qed

text \<open>Sending changes the transport of a socket and nothing else of it.\<close>

lemma fold_send_ids:
  "connectionId (heap (fold (\<lambda>ws s'. if Some ws \<noteq> ex \<and> readyState (heap s' ws) = OPEN
                  then ws_send ws m s' else s') room s) w) = connectionId (heap s w) \<and>
   roomId (heap (fold (\<lambda>ws s'. if Some ws \<noteq> ex \<and> readyState (heap s' ws) = OPEN
                  then ws_send ws m s' else s') room s) w) = roomId (heap s w) \<and>
   readyState (heap (fold (\<lambda>ws s'. if Some ws \<noteq> ex \<and> readyState (heap s' ws) = OPEN
                  then ws_send ws m s' else s') room s) w) = readyState (heap s w)"
  by (induction room arbitrary: s) (auto simp: ws_send_def)

lemma broadcastToRoom_ids [simp]:
  "connectionId (heap (broadcastToRoom s r m ex) w) = connectionId (heap s w)"
  "roomId (heap (broadcastToRoom s r m ex) w) = roomId (heap s w)"
  "readyState (heap (broadcastToRoom s r m ex) w) = readyState (heap s w)"
  by (simp_all add: broadcastToRoom_def fold_send_ids split: option.split)

lemma sendToClient_ids [simp]:
  "connectionId (heap (sendToClient s w' m) w) = connectionId (heap s w)"
  "roomId (heap (sendToClient s w' m) w) = roomId (heap s w)"
  "readyState (heap (sendToClient s w' m) w) = readyState (heap s w)"
  by (simp_all add: sendToClient_def ws_send_def)

lemma ws_close_ids [simp]:
  "connectionId (heap (ws_close w' c t s) w) = connectionId (heap s w)"
  "roomId (heap (ws_close w' c t s) w) = roomId (heap s w)"
  by (simp_all add: ws_close_def)

text \<open>The invariant reads the maps and the two ids of the sockets only.\<close>

lemma registry_ok_cong:
  "registry_ok s \<Longrightarrow> rooms s' = rooms s \<Longrightarrow> roomExpiry s' = roomExpiry s \<Longrightarrow>
   (\<And>w. roomId (heap s' w) = roomId (heap s w)) \<Longrightarrow>
   (\<And>w. connectionId (heap s' w) = connectionId (heap s w)) \<Longrightarrow> registry_ok s'"
  by (simp add: registry_ok_def)

lemma registry_ok_new: "registry_ok (new_relay c now)"
  by (simp add: registry_ok_def new_relay_def)

lemma registry_ok_ws_close: "registry_ok s \<Longrightarrow> registry_ok (ws_close w c t s)"
  by (erule registry_ok_cong) simp_all

lemma registry_ok_sendToClient: "registry_ok s \<Longrightarrow> registry_ok (sendToClient s w m)"
  by (erule registry_ok_cong) simp_all

lemma registry_ok_broadcastToRoom: "registry_ok s \<Longrightarrow> registry_ok (broadcastToRoom s r m ex)"
  by (erule registry_ok_cong) simp_all

lemma checkRateLimit_frame:
  "checkRateLimit s c now = (ok, s1) \<Longrightarrow>
   rooms s1 = rooms s \<and> roomExpiry s1 = roomExpiry s \<and> heap s1 = heap s \<and>
   stats s1 = stats s \<and> config s1 = config s"
  by (cases c) (auto simp: Let_def split: option.splits if_splits)

lemma registry_ok_stats [simp]: "registry_ok (s\<lparr>stats := x\<rparr>) = registry_ok s"
  by (simp add: registry_ok_def)

lemma registry_ok_userRates [simp]: "registry_ok (s\<lparr>userRates := x\<rparr>) = registry_ok s"
  by (simp add: registry_ok_def)

lemma registry_ok_handleMessage:
  assumes "registry_ok s" shows "registry_ok (handleMessage s ws data now1 now2)"
proof -
  obtain ok s1 where c: "checkRateLimit s (connectionId (heap s ws)) now1 = (ok, s1)"
    by (cases "checkRateLimit s (connectionId (heap s ws)) now1")
  from checkRateLimit_frame[OF c] assms have "registry_ok s1"
    by (auto elim: registry_ok_cong)
  then show ?thesis
    unfolding handleMessage_def c
    by (auto simp: Let_def registry_ok_sendToClient registry_ok_broadcastToRoom
             split: option.split json.split bool.split)
qed

lemma fresh_not_member:
  "registry_ok s \<Longrightarrow> heap s ws = fresh_socket \<Longrightarrow> map_of (rooms s) r = Some room \<Longrightarrow>
   ws \<notin> set room"
proof
  assume a: "registry_ok s" "heap s ws = fresh_socket" "map_of (rooms s) r = Some room"
    and "ws \<in> set room"
  then have "roomId (heap s ws) = Some r"
    unfolding registry_ok_def by blast
  with a(2) show False by (simp add: fresh_socket_def)
qed

lemma joined_fields:
  "config (joined s ws rid cid now1 now2 now3) = config s"
  "heap (joined s ws rid cid now1 now2 now3) =
     (heap s)(ws := (heap s ws)\<lparr>connectionId := Some cid, roomId := Some rid,
                                  joinedAt := Some now1\<rparr>)"
  "userRates (joined s ws rid cid now1 now2 now3) =
     AList.update cid \<lparr>count = 0, resetTime = now2 + rateLimitWindow (config s)\<rparr> (userRates s)"
  "rooms (joined s ws rid cid now1 now2 now3) =
     AList.map_entry rid (Set_add ws)
       (if map_of (rooms s) rid = None then AList.update rid [] (rooms s) else rooms s)"
  "roomExpiry (joined s ws rid cid now1 now2 now3) =
     (if map_of (rooms s) rid = None
      then AList.update rid (now3 + config_roomExpiry (config s)) (roomExpiry s)
      else roomExpiry s)"
  "stats (joined s ws rid cid now1 now2 now3) =
     (stats s)\<lparr>connectionsTotal := connectionsTotal (stats s) + 1\<rparr>"
  by (simp_all add: joined_def Let_def)

lemma handleConnection_rejected:
  "resolve_roomId pathname values = None \<Longrightarrow>
   handleConnection s ws pathname values cid now1 now2 now3 = ws_close ws 1008 room_required s"
  "resolve_roomId pathname values = Some rid \<Longrightarrow> \<not> roomId_format rid \<Longrightarrow>
   handleConnection s ws pathname values cid now1 now2 now3 =
     ws_close ws 1008 (if rid = [] then room_required else room_invalid) s"
  by (simp_all add: handleConnection_def)

lemma handleConnection_accepted:
  "resolve_roomId pathname values = Some rid \<Longrightarrow> roomId_format rid \<Longrightarrow>
   handleConnection s ws pathname values cid now1 now2 now3 =
     broadcastToRoom
       (sendToClient (joined s ws rid cid now1 now2 now3) ws
          (connected_message cid rid (room_size (joined s ws rid cid now1 now2 now3) rid)))
       rid (user_joined_message cid (room_size (joined s ws rid cid now1 now2 now3) rid)) (Some ws)"
  by (auto simp: handleConnection_def joined_def Let_def roomId_format_def)

lemma registry_ok_joined:
  assumes ok: "registry_ok s" and fresh: "heap s ws = fresh_socket"
    and cid: "cid \<noteq> []" and fmt: "roomId_format rid"
  shows "registry_ok (joined s ws rid cid now1 now2 now3)"
proof -
  have out: "\<And>r room. map_of (rooms s) r = Some room \<Longrightarrow> ws \<notin> set room"
    using fresh_not_member[OF ok fresh] .
  show ?thesis
  proof (cases "map_of (rooms s) rid")
    case None
    with ok out cid fmt show ?thesis
      unfolding registry_ok_def joined_fields
      by (auto simp: map_of_map_entry update_conv' Set_add_def)
  next
    case (Some room)
    moreover from Some ok have "map_of (roomExpiry s) rid \<noteq> None"
      unfolding registry_ok_def by (metis option.distinct(1))
    ultimately show ?thesis
      using ok out cid fmt unfolding registry_ok_def joined_fields
      by (auto simp: map_of_map_entry update_conv' Set_add_def split: if_splits)
  qed
qed

lemma registry_ok_handleConnection:
  assumes ok: "registry_ok s" and fresh: "heap s ws = fresh_socket" and cid: "cid \<noteq> []"
  shows "registry_ok (handleConnection s ws pathname values cid now1 now2 now3)"
proof (cases "resolve_roomId pathname values")
  case None
  then show ?thesis by (simp add: handleConnection_rejected registry_ok_ws_close ok)
next
  case (Some rid)
  show ?thesis
  proof (cases "roomId_format rid")
    case False
    then show ?thesis
      using Some by (simp add: handleConnection_rejected registry_ok_ws_close ok)
  next
    case True
    show ?thesis
      unfolding handleConnection_accepted[OF Some True]
      by (intro registry_ok_broadcastToRoom registry_ok_sendToClient
                registry_ok_joined[OF ok fresh cid True])
  qed
qed

subsection \<open>Disconnecting\<close>

lemma handleDisconnection_noop:
  "roomId (heap s ws) = None \<or> connectionId (heap s ws) = None \<or>
   roomId (heap s ws) = Some [] \<or> connectionId (heap s ws) = Some [] \<or>
   (\<exists>rid. roomId (heap s ws) = Some rid \<and> map_of (rooms s) rid = None) \<Longrightarrow>
   handleDisconnection s ws = s"
  by (auto simp: handleDisconnection_def split: option.splits)

lemma handleDisconnection_fields:
  assumes "roomId (heap s ws) = Some rid" "connectionId (heap s ws) = Some cid"
    "rid \<noteq> []" "cid \<noteq> []" "map_of (rooms s) rid = Some room"
  shows "config (handleDisconnection s ws) = config s"
    and "rooms (handleDisconnection s ws) =
           (if Set_delete ws room = [] then AList.delete rid (rooms s)
            else AList.update rid (Set_delete ws room) (rooms s))"
    and "roomExpiry (handleDisconnection s ws) =
           (if Set_delete ws room = [] then AList.delete rid (roomExpiry s) else roomExpiry s)"
    and "userRates (handleDisconnection s ws) = AList.delete cid (userRates s)"
    and "stats (handleDisconnection s ws) =
           (stats s)\<lparr>disconnectionsTotal := disconnectionsTotal (stats s) + 1\<rparr>"
    and "heap (handleDisconnection s ws) =
           heap (broadcastToRoom
                   (s\<lparr>rooms := AList.update rid (Set_delete ws room) (rooms s),
                      stats := (stats s)\<lparr>disconnectionsTotal :=
                                 disconnectionsTotal (stats s) + 1\<rparr>\<rparr>)
                   rid (user_left_message cid (int (length (Set_delete ws room)))) None)"
  using assms by (simp_all add: handleDisconnection_def Let_def delete_update_same)

lemma handleDisconnection_ids [simp]:
  "connectionId (heap (handleDisconnection s ws) w) = connectionId (heap s w)"
  "roomId (heap (handleDisconnection s ws) w) = roomId (heap s w)"
  "readyState (heap (handleDisconnection s ws) w) = readyState (heap s w)"
  by (simp_all add: handleDisconnection_def Let_def split: option.split)

lemma registry_ok_handleDisconnection:
  assumes ok: "registry_ok s" shows "registry_ok (handleDisconnection s ws)"
proof (cases "\<exists>rid cid room. roomId (heap s ws) = Some rid \<and> connectionId (heap s ws) = Some cid \<and>
    rid \<noteq> [] \<and> cid \<noteq> [] \<and> map_of (rooms s) rid = Some room")
  case False
  then have "handleDisconnection s ws = s"
    by (intro handleDisconnection_noop) (metis option.exhaust)
  with ok show ?thesis by simp
next
  case True
  then obtain rid cid room where a: "roomId (heap s ws) = Some rid"
    "connectionId (heap s ws) = Some cid" "rid \<noteq> []" "cid \<noteq> []"
    "map_of (rooms s) rid = Some room"
    by blast
  from ok a(5) have "map_of (roomExpiry s) rid \<noteq> None"
    unfolding registry_ok_def by (metis option.distinct(1))
  with ok a(5) show ?thesis
    unfolding registry_ok_def handleDisconnection_fields(2,3)[OF a] handleDisconnection_ids
    by (auto simp: update_conv' delete_conv' Set_delete_def distinct_removeAll
             split: if_splits)
qed

subsection \<open>The cleanup interval\<close>

lemma fold_close:
  "distinct room \<Longrightarrow>
   fold (\<lambda>ws s'. ws_close ws 1000 ''Room expired after 24 hours''
                    (sendToClient s' ws room_expired_message)) room s =
   s\<lparr>heap := expel (set room) (heap s)\<rparr>"
proof (induction room arbitrary: s)
  case Nil
  then show ?case by (simp add: expel_def)
next
  case (Cons a room)
  then show ?case
    by (auto simp: expel_def ws_close_def sendToClient_def ws_send_def fun_eq_iff
             intro!: relay.equality)
qed

lemma fold_close_frame:
  "config (fold (\<lambda>ws s'. ws_close ws c t (sendToClient s' ws m)) room s) = config s \<and>
   rooms (fold (\<lambda>ws s'. ws_close ws c t (sendToClient s' ws m)) room s) = rooms s \<and>
   userRates (fold (\<lambda>ws s'. ws_close ws c t (sendToClient s' ws m)) room s) = userRates s \<and>
   roomExpiry (fold (\<lambda>ws s'. ws_close ws c t (sendToClient s' ws m)) room s) = roomExpiry s \<and>
   stats (fold (\<lambda>ws s'. ws_close ws c t (sendToClient s' ws m)) room s) = stats s \<and>
   (\<forall>w. connectionId (heap (fold (\<lambda>ws s'. ws_close ws c t (sendToClient s' ws m)) room s) w) =
        connectionId (heap s w) \<and>
        roomId (heap (fold (\<lambda>ws s'. ws_close ws c t (sendToClient s' ws m)) room s) w) =
        roomId (heap s w))"
  by (induction room arbitrary: s) simp_all

lemma delete_absent: "map_of al k = None \<Longrightarrow> AList.delete k al = al"
  by (simp add: map_of_eq_None_iff)

lemma expire_room_fields:
  "config (expire_room r s) = config s"
  "rooms (expire_room r s) = AList.delete r (rooms s)"
  "roomExpiry (expire_room r s) =
     (if map_of (rooms s) r = None then roomExpiry s else AList.delete r (roomExpiry s))"
  "userRates (expire_room r s) = userRates s"
  "stats (expire_room r s) = stats s"
  "connectionId (heap (expire_room r s) w) = connectionId (heap s w)"
  "roomId (heap (expire_room r s) w) = roomId (heap s w)"
  by (simp_all add: expire_room_def Let_def fold_close_frame delete_absent split: option.split)

lemma registry_ok_expire_room: "registry_ok s \<Longrightarrow> registry_ok (expire_room r s)"
  unfolding registry_ok_def expire_room_fields
  by (auto simp: delete_conv')

lemma registry_ok_fold_expire:
  "registry_ok s \<Longrightarrow> registry_ok (fold expire_room rs s)"
  by (induction rs arbitrary: s) (simp_all add: registry_ok_expire_room)

lemma registry_ok_cleanup: "registry_ok s \<Longrightarrow> registry_ok (cleanup s now)"
  by (simp add: cleanup_def registry_ok_fold_expire)

subsection \<open>Reachable states\<close>

lemma registry_ok_step:
  "registry_ok s \<Longrightarrow> enabled s e \<Longrightarrow> registry_ok (step s e)"
proof (cases e)
  case (Connection ws pathname vals cid now1 now2 now3)
  assume "registry_ok s" "enabled s e"
  with Connection show ?thesis
    by (auto simp: hex_id_def intro!: registry_ok_handleConnection)
next
  case (TransportState ws st)
  assume "registry_ok s"
  then show ?thesis
    unfolding TransportState by (auto elim!: registry_ok_cong)
qed (simp_all add: registry_ok_handleMessage registry_ok_handleDisconnection registry_ok_cleanup)

lemma reachable_registry_ok: "reachable s \<Longrightarrow> registry_ok s"
  by (induction rule: reachable.induct) (simp_all add: registry_ok_new registry_ok_step)

lemma reachable_run: "reachable s \<Longrightarrow> enabled_all s es \<Longrightarrow> reachable (run s es)"
  by (induction es arbitrary: s) (auto intro: reachable_step)

subsection \<open>Rate limiting\<close>

lemma checkRateLimit_unregistered:
  "map_of (userRates s) cid = None \<Longrightarrow> checkRateLimit s (Some cid) now = (False, s)"
  by simp

lemma checkRateLimit_registered:
  assumes "map_of (userRates s) cid = Some rd"
      and "c0 = (if now > resetTime rd then 0 else count rd)"
      and "r0 = (if now > resetTime rd then now + rateLimitWindow (config s) else resetTime rd)"
  shows "checkRateLimit s (Some cid) now =
           (c0 < rateLimit (config s),
            s\<lparr>userRates := AList.update cid
                 \<lparr>count = (if c0 < rateLimit (config s) then c0 + 1 else c0), resetTime = r0\<rparr>
                 (userRates s)\<rparr>)"
  using assms by (cases rd) (auto simp: Let_def)

lemma checkRateLimit_calls_within:
  "map_of (userRates s) cid = Some rd \<Longrightarrow> \<forall>t\<in>set nows. t \<le> resetTime rd \<Longrightarrow>
   fst (checkRateLimit_calls s cid nows) =
     map (\<lambda>i. count rd + int i < rateLimit (config s)) [0..<length nows] \<and>
   config (snd (checkRateLimit_calls s cid nows)) = config s \<and>
   (\<exists>rd'. map_of (userRates (snd (checkRateLimit_calls s cid nows))) cid = Some rd' \<and>
          resetTime rd' = resetTime rd)"
proof (induction nows arbitrary: s rd)
  case Nil
  then show ?case by simp
next
  case (Cons now nows)
  let ?L = "rateLimit (config s)"
  from Cons.prems have le: "\<not> now > resetTime rd" by simp
  let ?rd1 = "\<lparr>count = (if count rd < ?L then count rd + 1 else count rd), resetTime = resetTime rd\<rparr>"
  let ?s1 = "s\<lparr>userRates := AList.update cid ?rd1 (userRates s)\<rparr>"
  have call: "checkRateLimit s (Some cid) now = (count rd < ?L, ?s1)"
    using checkRateLimit_registered[OF Cons.prems(1) refl refl, of now] le by simp
  have reg: "map_of (userRates ?s1) cid = Some ?rd1"
    by (simp add: update_conv')
  have later: "\<forall>t\<in>set nows. t \<le> resetTime ?rd1"
    using Cons.prems(2) by simp
  note ih = Cons.IH[OF reg later]
  have shift: "map (\<lambda>i. count ?rd1 + int i < ?L) [0..<length nows] =
      map (\<lambda>i. count rd + int (Suc i) < ?L) [0..<length nows]"
    by (rule map_cong) auto
  have upt: "[0..<length (now # nows)] = 0 # map Suc [0..<length nows]"
    by (simp add: upt_conv_Cons map_Suc_upt del: upt_Suc)
  have "fst (checkRateLimit_calls s cid (now # nows)) =
      (count rd < ?L) # fst (checkRateLimit_calls ?s1 cid nows)"
    and "snd (checkRateLimit_calls s cid (now # nows)) = snd (checkRateLimit_calls ?s1 cid nows)"
    unfolding checkRateLimit_calls.simps call by (simp_all add: split_beta)
  then show ?case
    using ih shift upt by (simp add: comp_def del: upt_Suc)
qed

lemma checkRateLimit_calls_append:
  "checkRateLimit_calls s cid (xs @ ys) =
     (fst (checkRateLimit_calls s cid xs) @
        fst (checkRateLimit_calls (snd (checkRateLimit_calls s cid xs)) cid ys),
      snd (checkRateLimit_calls (snd (checkRateLimit_calls s cid xs)) cid ys))"
  by (induction xs arbitrary: s) (simp_all add: split_beta)

section \<open>The rate limiter (claim C3)\<close>

text \<open>
  Claim C3. \<open>checkRateLimit\<close> is a fixed-window limiter. For a connection without rate
  state it returns false and changes nothing. For a registered one, it first resets the
  count to 0 and the reset time to \<open>now\<close> plus the window when \<open>now\<close> is past the stored
  reset time; then it returns false without counting when the count has reached the limit,
  and counts and returns true otherwise. In particular, from a count of 0, of any number of
  calls made no later than the reset time exactly the first \<open>limit\<close> return true, and a
  call after the reset time returns true again (the limit being positive, as a number of
  calls is).
\<close>

theorem checkRateLimit_fixed_window:
  "(map_of (userRates s) cid = None \<longrightarrow> checkRateLimit s (Some cid) now = (False, s)) \<and>
   (\<forall>rd. map_of (userRates s) cid = Some rd \<longrightarrow>
      (let expired = (now > resetTime rd);
           c0 = (if expired then 0 else count rd);
           r0 = (if expired then now + rateLimitWindow (config s) else resetTime rd);
           ok = (c0 < rateLimit (config s))
       in checkRateLimit s (Some cid) now =
            (ok, s\<lparr>userRates := AList.update cid
                      \<lparr>count = (if ok then c0 + 1 else c0), resetTime = r0\<rparr> (userRates s)\<rparr>))) \<and>
   (\<forall>rd nows later. map_of (userRates s) cid = Some rd \<and> count rd = 0 \<and>
        (\<forall>t\<in>set nows. t \<le> resetTime rd) \<and> resetTime rd < later \<and> 0 < rateLimit (config s) \<longrightarrow>
      fst (checkRateLimit_calls s cid (nows @ [later])) =
        map (\<lambda>i. int i < rateLimit (config s)) [0..<length nows] @ [True])"
proof (intro conjI allI impI)
  assume "map_of (userRates s) cid = None"
  then show "checkRateLimit s (Some cid) now = (False, s)" by simp
next
  fix rd assume "map_of (userRates s) cid = Some rd"
  from checkRateLimit_registered[OF this refl refl, of now]
  show "let expired = (now > resetTime rd);
           c0 = (if expired then 0 else count rd);
           r0 = (if expired then now + rateLimitWindow (config s) else resetTime rd);
           ok = (c0 < rateLimit (config s))
       in checkRateLimit s (Some cid) now =
            (ok, s\<lparr>userRates := AList.update cid
                      \<lparr>count = (if ok then c0 + 1 else c0), resetTime = r0\<rparr> (userRates s)\<rparr>)"
    by (simp add: Let_def)
next
  fix rd nows later
  assume a: "map_of (userRates s) cid = Some rd \<and> count rd = 0 \<and>
        (\<forall>t\<in>set nows. t \<le> resetTime rd) \<and> resetTime rd < later \<and> 0 < rateLimit (config s)"
  let ?s1 = "snd (checkRateLimit_calls s cid nows)"
  from a checkRateLimit_calls_within[of s cid rd nows]
  obtain rd' where w: "fst (checkRateLimit_calls s cid nows) =
       map (\<lambda>i. int i < rateLimit (config s)) [0..<length nows]"
    "config ?s1 = config s" "map_of (userRates ?s1) cid = Some rd'" "resetTime rd' = resetTime rd"
    by auto
  have "fst (checkRateLimit ?s1 (Some cid) later)"
    using checkRateLimit_registered[OF w(3) refl refl, of later] w(2,4) a by simp
  then show "fst (checkRateLimit_calls s cid (nows @ [later])) =
        map (\<lambda>i. int i < rateLimit (config s)) [0..<length nows] @ [True]"
    by (simp add: checkRateLimit_calls_append w(1) split_beta)
qed

lemmas relay_defs = new_relay_def or_default_def handleConnection_def handleMessage_def
  handleDisconnection_def cleanup_def expire_room_def expiredRooms_def broadcastToRoom_def
  sendToClient_def ws_send_def ws_close_def resolve_roomId_def query_room_def roomId_format_def
  roomId_char_def Set_add_def Set_delete_def room_size_def fresh_socket_def hex_id_def
  connected_message_def user_joined_message_def user_left_message_def error_message_def
  rate_limit_error_def invalid_message_error_def parse_error_def room_expired_message_def
  room_required_def room_invalid_def Let_def

theorem checkRateLimit_fixed_window_witness:
  "fst (checkRateLimit_calls (run (new_relay limit3 0) [alice]) ''00000000000000a1''
     ([100, 200, 300, 400] @ [1500])) = [True, True, True, False, True]"
proof -
  let ?s = "run (new_relay limit3 0) [alice]"
  have h: "map_of (userRates ?s) ''00000000000000a1'' = Some \<lparr>count = 0, resetTime = 1010\<rparr> \<and>
      count \<lparr>count = 0, resetTime = 1010\<rparr> = 0 \<and>
      (\<forall>t\<in>set [100, 200, 300, 400]. t \<le> resetTime \<lparr>count = 0, resetTime = 1010\<rparr>) \<and>
      resetTime \<lparr>count = 0, resetTime = 1010\<rparr> < 1500 \<and> 0 < rateLimit (config ?s)"
    by (simp add: relay_defs limit3_def alice_def)
  have c: "rateLimit (config ?s) = 3"
    by (simp add: relay_defs limit3_def alice_def)
  from checkRateLimit_fixed_window[of ?s "''00000000000000a1''" 0] h
  have "fst (checkRateLimit_calls ?s ''00000000000000a1'' ([100, 200, 300, 400] @ [1500])) =
        map (\<lambda>i. int i < rateLimit (config ?s)) [0..<length [100, 200, 300, 400::int]] @ [True]"
    by blast
  then show ?thesis
    unfolding c by (simp add: upt_rec)
qed

section \<open>Lemmas: Keys\<close>

lemma keys_eq_iff:
  "(fst ` set al = fst ` set bl) = (\<forall>k. (map_of al k = None) = (map_of bl k = None))"
  by (auto simp: map_of_eq_None_iff)

lemma handleMessage_fields [simp]:
  "config (handleMessage s ws data now1 now2) = config s"
  "rooms (handleMessage s ws data now1 now2) = rooms s"
  "roomExpiry (handleMessage s ws data now1 now2) = roomExpiry s"
proof -
  obtain ok s1 where c: "checkRateLimit s (connectionId (heap s ws)) now1 = (ok, s1)"
    by (cases "checkRateLimit s (connectionId (heap s ws)) now1")
  note f = checkRateLimit_frame[OF c]
  show "config (handleMessage s ws data now1 now2) = config s"
    "rooms (handleMessage s ws data now1 now2) = rooms s"
    "roomExpiry (handleMessage s ws data now1 now2) = roomExpiry s"
    unfolding handleMessage_def c using f
    by (auto simp: Let_def split: option.split json.split bool.split)
qed

lemma handleConnection_config [simp]:
  "config (handleConnection s ws pathname vs cid now1 now2 now3) = config s"
  by (simp add: handleConnection_def Let_def split: option.split)

lemma fold_expire_room_config [simp]: "config (fold expire_room rs s) = config s"
  by (induction rs arbitrary: s) (simp_all add: expire_room_fields)

lemma step_config [simp]: "config (step s e) = config s"
  by (cases e) (simp_all add: cleanup_def handleDisconnection_def Let_def split: option.split)

lemma run_config [simp]: "config (run s es) = config s"
  by (induction es arbitrary: s) simp_all

section \<open>Lemmas: The expiry of a room that stays\<close>

lemma handleConnection_expiry:
  "map_of (rooms s) r \<noteq> None \<Longrightarrow>
   map_of (roomExpiry (handleConnection s ws pathname vs cid now1 now2 now3)) r =
   map_of (roomExpiry s) r"
proof (cases "resolve_roomId pathname vs")
  case None
  then show ?thesis by (simp add: handleConnection_rejected)
next
  case (Some rid)
  assume r: "map_of (rooms s) r \<noteq> None"
  show ?thesis
  proof (cases "roomId_format rid")
    case False
    with Some show ?thesis by (simp add: handleConnection_rejected)
  next
    case True
    with Some r show ?thesis
      by (auto simp: handleConnection_accepted joined_fields update_conv')
  qed
qed

lemma handleDisconnection_expiry:
  assumes "map_of (rooms (handleDisconnection s ws)) r \<noteq> None"
  shows "map_of (roomExpiry (handleDisconnection s ws)) r = map_of (roomExpiry s) r"
proof (cases "\<exists>rid cid room. roomId (heap s ws) = Some rid \<and> connectionId (heap s ws) = Some cid \<and>
    rid \<noteq> [] \<and> cid \<noteq> [] \<and> map_of (rooms s) rid = Some room")
  case False
  then have "handleDisconnection s ws = s"
    by (intro handleDisconnection_noop) (metis option.exhaust)
  then show ?thesis by simp
next
  case True
  then obtain rid cid room where a: "roomId (heap s ws) = Some rid"
    "connectionId (heap s ws) = Some cid" "rid \<noteq> []" "cid \<noteq> []"
    "map_of (rooms s) rid = Some room"
    by blast
  from assms show ?thesis
    unfolding handleDisconnection_fields(2,3)[OF a]
    by (auto simp: delete_conv' split: if_splits)
qed

lemma fold_expire_room_expiry:
  "map_of (rooms (fold expire_room rs s)) r \<noteq> None \<Longrightarrow>
   map_of (rooms s) r \<noteq> None \<and>
   map_of (roomExpiry (fold expire_room rs s)) r = map_of (roomExpiry s) r"
proof (induction rs arbitrary: s)
  case Nil
  then show ?case by simp
next
  case (Cons a rs)
  from Cons.prems have "map_of (rooms (fold expire_room rs (expire_room a s))) r \<noteq> None"
    by simp
  from Cons.IH[OF this] show ?case
    by (auto simp: expire_room_fields delete_conv' split: if_splits)
qed

lemma cleanup_expiry:
  "map_of (rooms (cleanup s now)) r \<noteq> None \<Longrightarrow>
   map_of (roomExpiry (cleanup s now)) r = map_of (roomExpiry s) r"
  using fold_expire_room_expiry[of "expiredRooms s now" s r]
  by (auto simp: cleanup_def split: if_splits)

lemma step_expiry:
  "map_of (rooms s) r \<noteq> None \<Longrightarrow> map_of (rooms (step s e)) r \<noteq> None \<Longrightarrow>
   map_of (roomExpiry (step s e)) r = map_of (roomExpiry s) r"
  by (cases e)
     (simp_all add: handleConnection_expiry handleDisconnection_expiry cleanup_expiry)

lemma run_expiry:
  "map_of (rooms s) r \<noteq> None \<Longrightarrow> room_kept s r es \<Longrightarrow>
   map_of (roomExpiry (run s es)) r = map_of (roomExpiry s) r"
  by (induction es arbitrary: s) (simp_all add: step_expiry)

lemma handleConnection_creates:
  assumes "resolve_roomId pathname vs = Some r" "roomId_format r" "map_of (rooms s) r = None"
  shows "map_of (roomExpiry (handleConnection s ws pathname vs cid now1 now2 now3)) r =
           Some (now3 + config_roomExpiry (config s))"
    and "map_of (rooms (handleConnection s ws pathname vs cid now1 now2 now3)) r = Some [ws]"
  using assms
  by (simp_all add: handleConnection_accepted joined_fields update_conv' map_of_map_entry
        Set_add_def)

section \<open>The expiry deadline of a room (claim C1)\<close>

text \<open>
  Claim C1. The expiry deadline of a room is set once, when \<open>handleConnection\<close> creates
  the room, to that call's \<open>Date.now()\<close> plus the configured room expiry, and no later
  event changes it while the room stays in the registry (a room is removed when its last
  member leaves, or by the cleanup): after any sequence of events through which the room
  stays, joins and leaves among them, its expiry entry is the one stored at creation.
\<close>

theorem room_expiry_set_once:
  "(map_of (rooms s) r \<noteq> None \<and> room_kept s r es \<longrightarrow>
      map_of (roomExpiry (run s es)) r = map_of (roomExpiry s) r) \<and>
   (resolve_roomId pathname vs = Some r \<and> roomId_format r \<and> map_of (rooms s) r = None \<and>
    room_kept (handleConnection s ws pathname vs cid now1 now2 now3) r es \<longrightarrow>
      map_of (roomExpiry (run (handleConnection s ws pathname vs cid now1 now2 now3) es)) r =
        Some (now3 + config_roomExpiry (config s)))"
  using run_expiry[of s r es]
    run_expiry[of "handleConnection s ws pathname vs cid now1 now2 now3" r es]
    handleConnection_creates[of pathname vs r s ws cid now1 now2 now3]
  by auto

theorem room_expiry_set_once_witness:
  "map_of (roomExpiry (run (new_relay limit3 0) [alice, bob, CloseEvent 1])) ''doc1'' =
     Some (10 + 24 * 60 * 60 * 1000)"
proof -
  let ?s = "new_relay limit3 0"
  have h: "resolve_roomId ''/room/doc1'' [] = Some ''doc1'' \<and> roomId_format ''doc1'' \<and>
      map_of (rooms ?s) ''doc1'' = None \<and>
      room_kept (handleConnection ?s 1 ''/room/doc1'' [] ''00000000000000a1'' 10 10 10) ''doc1''
        [bob, CloseEvent 1]"
    by (simp add: relay_defs limit3_def bob_def)
  have c: "config_roomExpiry (config ?s) = 24 * 60 * 60 * 1000"
    by (simp add: relay_defs limit3_def)
  from room_expiry_set_once[of ?s "''doc1''" "[bob, CloseEvent 1]" "''/room/doc1''" "[]" 1
      "''00000000000000a1''" 10 10 10] h
  show ?thesis
    unfolding c by (simp add: alice_def)
qed

section \<open>Lemmas: Splitting a path\<close>

lemma split_no_separator: "c \<notin> set xs \<Longrightarrow> split c xs = [xs]"
  by (induction xs) auto

lemma split_nonempty [simp]: "split c xs \<noteq> []"
  by (induction xs) (auto split: list.split)

lemma split_append:
  "split c (xs @ c # ys) = split c xs @ split c ys"
proof (induction xs)
  case Nil
  then show ?case by simp
next
  case (Cons x xs)
  obtain p ps where s: "split c xs = p # ps"
    by (cases "split c xs") simp_all
  show ?case
  proof (cases "x = c")
    case True
    then show ?thesis using Cons.IH by simp
  next
    case False
    have "split c ((x # xs) @ c # ys) =
        (case split c (xs @ c # ys) of [] \<Rightarrow> [[x]] | part # parts \<Rightarrow> (x # part) # parts)"
      using False by simp
    also have "\<dots> = (x # p) # ps @ split c ys"
      unfolding Cons.IH s by simp
    also have "\<dots> = split c (x # xs) @ split c ys"
      using False s by simp
    finally show ?thesis .
  qed
qed

lemma slash_not_roomId_char: "\<not> roomId_char CHR ''/''"
  by (simp add: roomId_char_def)

lemma roomId_format_no_slash: "roomId_format r \<Longrightarrow> r \<noteq> [] \<and> CHR ''/'' \<notin> set r"
  using slash_not_roomId_char by (auto simp: roomId_format_def list_all_iff)

lemma resolve_roomId_path:
  assumes "r \<noteq> []" "CHR ''/'' \<notin> set r"
  shows "resolve_roomId (''/room/'' @ r) vs = Some r"
    and "resolve_roomId (''/room/'' @ r @ CHR ''/'' # rest) vs = Some r"
proof -
  have 1: "split CHR ''/'' (''/room/'' @ r) = [[], ''room'', r]"
    using split_no_separator[OF assms(2)] by simp
  have "''/room/'' @ r @ CHR ''/'' # rest = (''/room/'' @ r) @ CHR ''/'' # rest"
    by simp
  then have 2: "split CHR ''/'' (''/room/'' @ r @ CHR ''/'' # rest) =
       [[], ''room'', r] @ split CHR ''/'' rest"
    using split_append[of "CHR ''/''" "''/room/'' @ r" rest] 1 by simp
  show "resolve_roomId (''/room/'' @ r) vs = Some r"
    using assms(1) unfolding resolve_roomId_def 1 by simp
  show "resolve_roomId (''/room/'' @ r @ CHR ''/'' # rest) vs = Some r"
    using assms(1) unfolding resolve_roomId_def 2 by simp
qed

lemma resolve_roomId_query:
  "take 6 pathname \<noteq> ''/room/'' \<Longrightarrow> resolve_roomId pathname vs = query_room vs"
  by (simp add: resolve_roomId_def)

lemma resolve_roomId_ignores_query:
  "take 6 pathname = ''/room/'' \<Longrightarrow> resolve_roomId pathname vs = resolve_roomId pathname []"
  by (simp add: resolve_roomId_def)

lemma handleConnection_admits:
  assumes "resolve_roomId pathname vs = Some r" "roomId_format r"
  shows "roomId (heap (handleConnection s ws pathname vs cid now1 now2 now3) ws) = Some r"
    and "connectionId (heap (handleConnection s ws pathname vs cid now1 now2 now3) ws) = Some cid"
    and "\<exists>room. map_of (rooms (handleConnection s ws pathname vs cid now1 now2 now3)) r = Some room
            \<and> ws \<in> set room"
    and "map_of (userRates (handleConnection s ws pathname vs cid now1 now2 now3)) cid =
           Some \<lparr>count = 0, resetTime = now2 + rateLimitWindow (config s)\<rparr>"
  using assms
  by (auto simp: handleConnection_accepted joined_fields update_conv' map_of_map_entry
        Set_add_def)

section \<open>Resolving the room id (claim C10)\<close>

text \<open>
  Claim C10, as the code has it. The room id is the path segment after \<open>/room/\<close> when the
  path starts with \<open>/room/\<close>, whatever the query says (the path form takes precedence),
  and the \<open>room\<close> query parameter only when the path does not start with \<open>/room/\<close>: a
  path that starts with \<open>/room/\<close> never falls back to the query. A request that supplies
  a well-formed id in the path form, or in the query form on a path that does not start
  with \<open>/room/\<close>, passes the format test and is admitted to that room.
\<close>

theorem resolve_roomId_path_then_query:
  "(r \<noteq> [] \<and> CHR ''/'' \<notin> set r \<longrightarrow>
      resolve_roomId (''/room/'' @ r) vs = Some r \<and>
      resolve_roomId (''/room/'' @ r @ CHR ''/'' # rest) vs = Some r) \<and>
   (take 6 pathname = ''/room/'' \<longrightarrow> resolve_roomId pathname vs = resolve_roomId pathname []) \<and>
   (take 6 pathname \<noteq> ''/room/'' \<and> r \<noteq> [] \<longrightarrow> resolve_roomId pathname [r] = Some r) \<and>
   (roomId_format r \<and> (pathname = ''/room/'' @ r \<or> take 6 pathname \<noteq> ''/room/'' \<and> vs = [r]) \<longrightarrow>
      roomId (heap (handleConnection s ws pathname vs cid now1 now2 now3) ws) = Some r \<and>
      (\<exists>room. map_of (rooms (handleConnection s ws pathname vs cid now1 now2 now3)) r = Some room
            \<and> ws \<in> set room))"
proof (intro conjI impI)
  assume "r \<noteq> [] \<and> CHR ''/'' \<notin> set r"
  then have "r \<noteq> []" "CHR ''/'' \<notin> set r" by blast+
  from resolve_roomId_path[OF this]
  show "resolve_roomId (''/room/'' @ r) vs = Some r"
    "resolve_roomId (''/room/'' @ r @ CHR ''/'' # rest) vs = Some r"
    by blast+
next
  assume "take 6 pathname = ''/room/''"
  then show "resolve_roomId pathname vs = resolve_roomId pathname []"
    by (rule resolve_roomId_ignores_query)
next
  assume "take 6 pathname \<noteq> ''/room/'' \<and> r \<noteq> []"
  then show "resolve_roomId pathname [r] = Some r"
    by (simp add: resolve_roomId_query query_room_def)
next
  assume a: "roomId_format r \<and>
    (pathname = ''/room/'' @ r \<or> take 6 pathname \<noteq> ''/room/'' \<and> vs = [r])"
  have "resolve_roomId pathname vs = Some r"
  proof (cases "pathname = ''/room/'' @ r")
    case True
    from a roomId_format_no_slash[of r] have "r \<noteq> []" "CHR ''/'' \<notin> set r" by blast+
    from resolve_roomId_path(1)[OF this] True show ?thesis by blast
  next
    case False
    with a roomId_format_no_slash[of r] show ?thesis
      by (auto simp: resolve_roomId_query query_room_def)
  qed
  with a handleConnection_admits(1,3)[of pathname vs r s ws cid now1 now2 now3]
  show "roomId (heap (handleConnection s ws pathname vs cid now1 now2 now3) ws) = Some r"
    "\<exists>room. map_of (rooms (handleConnection s ws pathname vs cid now1 now2 now3)) r = Some room
            \<and> ws \<in> set room"
    by simp_all
qed

theorem resolve_roomId_path_then_query_witness:
  "resolve_roomId ''/room/abc'' [''xyz''] = Some ''abc'' \<and>
   resolve_roomId ''/room/abc/def'' [''xyz''] = Some ''abc'' \<and>
   resolve_roomId ''/room/'' [''xyz''] = resolve_roomId ''/room/'' [] \<and>
   resolve_roomId ''/'' [''xyz''] = Some ''xyz'' \<and>
   roomId (heap (handleConnection (new_relay limit3 0) 1 ''/'' [''xyz'']
                   ''00000000000000a1'' 10 10 10) 1) = Some ''xyz''"
proof -
  have h1: "''abc'' \<noteq> [] \<and> CHR ''/'' \<notin> set ''abc''" by simp
  have h2: "take 6 ''/room/'' = ''/room/''" by simp
  have h3: "take 6 ''/'' \<noteq> ''/room/'' \<and> ''xyz'' \<noteq> []" by simp
  have h4: "roomId_format ''xyz'' \<and>
      (''/'' = ''/room/'' @ ''xyz'' \<or> take 6 ''/'' \<noteq> ''/room/'' \<and> [''xyz''] = [''xyz''])"
    by (simp add: roomId_format_def roomId_char_def)
  show ?thesis
    using resolve_roomId_path_then_query[of "''abc''" "[''xyz'']" "''def''" "''/room/''"]
      resolve_roomId_path_then_query[of "''xyz''" "[''xyz'']" "[]" "''/''"
        "new_relay limit3 0" 1 "''00000000000000a1''" 10 10 10]
      h1 h2 h3 h4
    by simp
qed

text \<open>
  The request \<open>/room/?room=abc\<close> supplies the well-formed id \<open>abc\<close> in the query, and
  no usable path segment. The path starts with \<open>/room/\<close>, so the query is not read: the
  room id stays \<open>null\<close> and the socket is closed with "Room ID required".
\<close>

theorem query_room_ignored_behind_room_path:
  "roomId_format ''abc'' \<and> query_room [''abc''] = Some ''abc'' \<and>
   resolve_roomId ''/room/'' [''abc''] = None \<and>
   heap (handleConnection (new_relay limit3 0) 1 ''/room/'' [''abc''] ''00000000000000a1'' 10 10 10) 1 =
     fresh_socket\<lparr>readyState := CLOSING, transport := [Closed 1008 room_required]\<rparr> \<and>
   rooms (handleConnection (new_relay limit3 0) 1 ''/room/'' [''abc''] ''00000000000000a1'' 10 10 10)
     = []"
  by (simp add: relay_defs limit3_def)

section \<open>Lemmas: the last member leaves\<close>

lemma reachable_alice: "reachable (run (new_relay limit3 0) [alice])"
  by (rule reachable_run[OF reachable_new])
     (simp add: alice_def new_relay_def fresh_socket_def hex_id_def)

lemma registry_ok_member:
  "registry_ok s \<Longrightarrow> map_of (rooms s) r = Some room \<Longrightarrow> w \<in> set room \<Longrightarrow>
   room \<noteq> [] \<and> distinct room \<and> roomId_format r \<and> roomId (heap s w) = Some r \<and>
   (\<exists>cid. connectionId (heap s w) = Some cid \<and> cid \<noteq> [])"
  unfolding registry_ok_def by blast

lemma handleDisconnection_last_member:
  assumes ok: "registry_ok s" and room: "map_of (rooms s) rid = Some room"
    and mem: "ws \<in> set room" and last: "Set_delete ws room = []"
  shows "map_of (rooms (handleDisconnection s ws)) rid = None"
    and "map_of (roomExpiry (handleDisconnection s ws)) rid = None"
proof -
  from ok room mem obtain cid where a: "roomId (heap s ws) = Some rid"
    "connectionId (heap s ws) = Some cid" "rid \<noteq> []" "cid \<noteq> []"
    unfolding registry_ok_def roomId_format_def by blast
  show "map_of (rooms (handleDisconnection s ws)) rid = None"
    "map_of (roomExpiry (handleDisconnection s ws)) rid = None"
    unfolding handleDisconnection_fields(2,3)[OF a room] using last
    by (simp_all add: delete_conv')
qed

section \<open>The two maps of the registry (claim C7)\<close>

text \<open>
  Claim C7. In every reachable state a room id is a key of \<open>rooms\<close> exactly when it is a
  key of \<open>roomExpiry\<close>, and no room of the registry has zero members; when the leave of a
  member reduces its room to zero members, \<open>handleDisconnection\<close> has removed the room and
  its expiry entry when it returns, before the next event is handled.
\<close>

theorem rooms_and_expiry_agree:
  assumes "reachable s"
  shows "fst ` set (rooms s) = fst ` set (roomExpiry s) \<and>
         (\<forall>r room. map_of (rooms s) r = Some room \<longrightarrow> room \<noteq> []) \<and>
         (\<forall>ws rid room. map_of (rooms s) rid = Some room \<and> ws \<in> set room \<and>
              Set_delete ws room = [] \<longrightarrow>
            map_of (rooms (handleDisconnection s ws)) rid = None \<and>
            map_of (roomExpiry (handleDisconnection s ws)) rid = None \<and>
            reachable (step s (CloseEvent ws)))"
proof -
  from assms have ok: "registry_ok s" by (rule reachable_registry_ok)
  have 1: "fst ` set (rooms s) = fst ` set (roomExpiry s)"
    using ok by (simp add: keys_eq_iff registry_ok_def)
  have 2: "\<forall>r room. map_of (rooms s) r = Some room \<longrightarrow> room \<noteq> []"
    using ok by (simp add: registry_ok_def)
  have 3: "\<forall>ws rid room. map_of (rooms s) rid = Some room \<and> ws \<in> set room \<and>
              Set_delete ws room = [] \<longrightarrow>
            map_of (rooms (handleDisconnection s ws)) rid = None \<and>
            map_of (roomExpiry (handleDisconnection s ws)) rid = None \<and>
            reachable (step s (CloseEvent ws))"
  proof (intro allI impI)
    fix ws rid room
    assume h: "map_of (rooms s) rid = Some room \<and> ws \<in> set room \<and> Set_delete ws room = []"
    then have room: "map_of (rooms s) rid = Some room" and mem: "ws \<in> set room"
      and last: "Set_delete ws room = []" by simp_all
    from registry_ok_member[OF ok room mem] have "connectionId (heap s ws) \<noteq> None"
      by auto
    then have "enabled s (CloseEvent ws)" by simp
    from reachable_step[OF assms this] handleDisconnection_last_member[OF ok room mem last]
    show "map_of (rooms (handleDisconnection s ws)) rid = None \<and>
            map_of (roomExpiry (handleDisconnection s ws)) rid = None \<and>
            reachable (step s (CloseEvent ws))"
      by simp
  qed
  show ?thesis
    using 1 2 3 by (intro conjI) assumption+
qed

theorem rooms_and_expiry_agree_witness:
  "fst ` set (rooms (run (new_relay limit3 0) [alice])) = {''doc1''} \<and>
   fst ` set (roomExpiry (run (new_relay limit3 0) [alice])) = {''doc1''} \<and>
   map_of (rooms (run (new_relay limit3 0) [alice])) ''doc1'' = Some [1] \<and>
   map_of (rooms (handleDisconnection (run (new_relay limit3 0) [alice]) 1)) ''doc1'' = None \<and>
   map_of (roomExpiry (handleDisconnection (run (new_relay limit3 0) [alice]) 1)) ''doc1'' = None"
proof -
  let ?s = "run (new_relay limit3 0) [alice]"
  have h: "map_of (rooms ?s) ''doc1'' = Some [1] \<and> (1::nat) \<in> set [1] \<and> Set_delete 1 [1] = []"
    and k: "fst ` set (rooms ?s) = {''doc1''}"
    by (simp_all add: relay_defs limit3_def alice_def)
  note t = rooms_and_expiry_agree[OF reachable_alice]
  from t have e: "fst ` set (roomExpiry ?s) = fst ` set (rooms ?s)"
    by simp
  from t have "map_of (rooms ?s) ''doc1'' = Some [1] \<and> (1::nat) \<in> set [1] \<and> Set_delete 1 [1] = []
      \<longrightarrow> map_of (rooms (handleDisconnection ?s 1)) ''doc1'' = None \<and>
            map_of (roomExpiry (handleDisconnection ?s 1)) ''doc1'' = None \<and>
            reachable (step ?s (CloseEvent 1))"
    by blast
  with h have "map_of (rooms (handleDisconnection ?s 1)) ''doc1'' = None \<and>
            map_of (roomExpiry (handleDisconnection ?s 1)) ''doc1'' = None"
    by blast
  with h k e show ?thesis
    by simp
qed

section \<open>Rejecting a connection (claim C5)\<close>

text \<open>
  Claim C5. When the room id of a connection attempt is missing or empty, or does not
  match \<open>^[a-zA-Z0-9_-]+$\<close>, \<open>handleConnection\<close> closes the socket with code 1008 and does
  nothing else: the rooms, the expiry deadlines, the rate states and the counters are
  those of before, the socket gets no connection id and no room id, and no other socket
  is touched. Hence every key of \<open>rooms\<close> and of \<open>roomExpiry\<close> in a reachable state is a
  well-formed room id.
\<close>

theorem invalid_roomId_rejected:
  "((resolve_roomId pathname vs = None \<or>
     (\<exists>rid. resolve_roomId pathname vs = Some rid \<and> \<not> roomId_format rid)) \<longrightarrow>
      (let s' = handleConnection s ws pathname vs cid now1 now2 now3
       in rooms s' = rooms s \<and> roomExpiry s' = roomExpiry s \<and> userRates s' = userRates s \<and>
          stats s' = stats s \<and>
          connectionId (heap s' ws) = connectionId (heap s ws) \<and>
          roomId (heap s' ws) = roomId (heap s ws) \<and>
          (transport (heap s' ws) = transport (heap s ws) @ [Closed 1008 room_required] \<or>
           transport (heap s' ws) = transport (heap s ws) @ [Closed 1008 room_invalid]) \<and>
          (\<forall>w. w \<noteq> ws \<longrightarrow> heap s' w = heap s w))) \<and>
   (reachable s \<longrightarrow>
      (\<forall>r. r \<in> fst ` set (rooms s) \<union> fst ` set (roomExpiry s) \<longrightarrow> roomId_format r))"
proof (intro conjI impI)
  assume "resolve_roomId pathname vs = None \<or>
     (\<exists>rid. resolve_roomId pathname vs = Some rid \<and> \<not> roomId_format rid)"
  then have "\<exists>reason. handleConnection s ws pathname vs cid now1 now2 now3 =
      ws_close ws 1008 reason s \<and> (reason = room_required \<or> reason = room_invalid)"
  proof
    assume "resolve_roomId pathname vs = None"
    then have "handleConnection s ws pathname vs cid now1 now2 now3 =
        ws_close ws 1008 room_required s"
      by (rule handleConnection_rejected(1))
    then show ?thesis by blast
  next
    assume "\<exists>rid. resolve_roomId pathname vs = Some rid \<and> \<not> roomId_format rid"
    then obtain rid where "resolve_roomId pathname vs = Some rid" "\<not> roomId_format rid"
      by blast
    then have "handleConnection s ws pathname vs cid now1 now2 now3 =
        ws_close ws 1008 (if rid = [] then room_required else room_invalid) s"
      by (rule handleConnection_rejected(2))
    then show ?thesis by (cases "rid = []") auto
  qed
  then obtain reason where
    c: "handleConnection s ws pathname vs cid now1 now2 now3 = ws_close ws 1008 reason s"
    and r: "reason = room_required \<or> reason = room_invalid"
    by blast
  from r show "let s' = handleConnection s ws pathname vs cid now1 now2 now3
       in rooms s' = rooms s \<and> roomExpiry s' = roomExpiry s \<and> userRates s' = userRates s \<and>
          stats s' = stats s \<and>
          connectionId (heap s' ws) = connectionId (heap s ws) \<and>
          roomId (heap s' ws) = roomId (heap s ws) \<and>
          (transport (heap s' ws) = transport (heap s ws) @ [Closed 1008 room_required] \<or>
           transport (heap s' ws) = transport (heap s ws) @ [Closed 1008 room_invalid]) \<and>
          (\<forall>w. w \<noteq> ws \<longrightarrow> heap s' w = heap s w)"
    unfolding c Let_def by (simp add: ws_close_def)
next
  assume "reachable s"
  then have ok: "registry_ok s" by (rule reachable_registry_ok)
  then have keys: "fst ` set (roomExpiry s) = fst ` set (rooms s)"
    unfolding keys_eq_iff registry_ok_def by blast
  show "\<forall>r. r \<in> fst ` set (rooms s) \<union> fst ` set (roomExpiry s) \<longrightarrow> roomId_format r"
  proof (intro allI impI)
    fix r assume "r \<in> fst ` set (rooms s) \<union> fst ` set (roomExpiry s)"
    with keys have "map_of (rooms s) r \<noteq> None"
      by (simp add: map_of_eq_None_iff)
    with ok show "roomId_format r"
      unfolding registry_ok_def by blast
  qed
qed

theorem invalid_roomId_rejected_witness:
  "resolve_roomId ''/'' [''../etc''] = Some ''../etc'' \<and> \<not> roomId_format ''../etc'' \<and>
   rooms (handleConnection (run (new_relay limit3 0) [alice]) 2 ''/'' [''../etc'']
            ''00000000000000b2'' 20 20 20) = rooms (run (new_relay limit3 0) [alice]) \<and>
   userRates (handleConnection (run (new_relay limit3 0) [alice]) 2 ''/'' [''../etc'']
            ''00000000000000b2'' 20 20 20) = userRates (run (new_relay limit3 0) [alice]) \<and>
   ''doc1'' \<in> fst ` set (rooms (run (new_relay limit3 0) [alice])) \<and> roomId_format ''doc1''"
proof -
  let ?s = "run (new_relay limit3 0) [alice]"
  have h: "resolve_roomId ''/'' [''../etc''] = Some ''../etc'' \<and> \<not> roomId_format ''../etc''"
    by (simp add: relay_defs)
  then have bad: "resolve_roomId ''/'' [''../etc''] = None \<or>
     (\<exists>rid. resolve_roomId ''/'' [''../etc''] = Some rid \<and> \<not> roomId_format rid)"
    by blast
  have key: "''doc1'' \<in> fst ` set (rooms ?s)"
    by (simp add: relay_defs limit3_def alice_def)
  note t = invalid_roomId_rejected[of "''/''" "[''../etc'']" ?s 2 "''00000000000000b2''" 20 20 20]
  from t bad have 1: "rooms (handleConnection ?s 2 ''/'' [''../etc''] ''00000000000000b2'' 20 20 20) =
      rooms ?s \<and>
    userRates (handleConnection ?s 2 ''/'' [''../etc''] ''00000000000000b2'' 20 20 20) =
      userRates ?s"
    by (simp add: Let_def)
  from t reachable_alice key have 2: "roomId_format ''doc1''"
    by blast
  from h 1 2 key show ?thesis by blast
qed

section \<open>Lemmas: Messages\<close>

lemma fold_send_excluded:
  "heap (fold (\<lambda>ws s'. if ws \<noteq> x \<and> readyState (heap s' ws) = OPEN
                  then ws_send ws m s' else s') room s) x = heap s x"
  by (induction room arbitrary: s) (simp_all add: ws_send_def)

lemma broadcastToRoom_excluded:
  "heap (broadcastToRoom s r m (Some x)) x = heap s x"
  by (simp add: broadcastToRoom_def fold_send_excluded split: option.split)

lemma sendToClient_heap:
  "heap (sendToClient s ws m) =
     (heap s)(ws := (heap s ws)\<lparr>transport := transport (heap s ws) @ sent_if_open s ws m\<rparr>)"
  by (auto simp: sendToClient_def sent_if_open_def ws_send_def)

lemma checkRateLimit_cases:
  obtains s1 where "checkRateLimit s c now = (True, s1)" "heap s1 = heap s" "rooms s1 = rooms s"
    "roomExpiry s1 = roomExpiry s" "fst (checkRateLimit s c now)"
  | s1 where "checkRateLimit s c now = (False, s1)" "heap s1 = heap s" "rooms s1 = rooms s"
    "roomExpiry s1 = roomExpiry s" "\<not> fst (checkRateLimit s c now)"
proof (cases "checkRateLimit s c now")
  case (Pair ok s1)
  with checkRateLimit_frame[OF Pair] that show thesis
    by (cases ok) simp_all
qed

lemma handleMessage_rejected:
  assumes "\<not> fst (checkRateLimit s (connectionId (heap s ws)) now1)"
  shows "heap (handleMessage s ws data now1 now2) =
     (heap s)(ws := (heap s ws)\<lparr>transport := transport (heap s ws) @
        sent_if_open s ws rate_limit_error\<rparr>)"
proof (rule checkRateLimit_cases[of s "connectionId (heap s ws)" now1])
  fix s1 assume "checkRateLimit s (connectionId (heap s ws)) now1 = (True, s1)"
  with assms show ?thesis by simp
next
  fix s1 assume c: "checkRateLimit s (connectionId (heap s ws)) now1 = (False, s1)"
    and h: "heap s1 = heap s"
  show ?thesis
    unfolding handleMessage_def c
    by (simp add: sendToClient_heap sent_if_open_def h)
qed

lemma handleMessage_unparsed:
  assumes "fst (checkRateLimit s (connectionId (heap s ws)) now1)"
    and "data = None \<or> data = Some JNull"
  shows "heap (handleMessage s ws data now1 now2) =
     (heap s)(ws := (heap s ws)\<lparr>transport := transport (heap s ws) @
        sent_if_open s ws parse_error\<rparr>)"
proof (rule checkRateLimit_cases[of s "connectionId (heap s ws)" now1])
  fix s1 assume "checkRateLimit s (connectionId (heap s ws)) now1 = (False, s1)"
  with assms show ?thesis by simp
next
  fix s1 assume c: "checkRateLimit s (connectionId (heap s ws)) now1 = (True, s1)"
    and h: "heap s1 = heap s"
  from assms(2) show ?thesis
    unfolding handleMessage_def c
    by (auto simp: sendToClient_heap sent_if_open_def h)
qed

lemma handleMessage_untyped:
  assumes "fst (checkRateLimit s (connectionId (heap s ws)) now1)"
    and "m \<noteq> JNull"
    and "message_type m = None \<or> (\<exists>t. message_type m = Some t \<and> \<not> truthy t)"
  shows "heap (handleMessage s ws (Some m) now1 now2) =
     (heap s)(ws := (heap s ws)\<lparr>transport := transport (heap s ws) @
        sent_if_open s ws invalid_message_error\<rparr>)"
proof (rule checkRateLimit_cases[of s "connectionId (heap s ws)" now1])
  fix s1 assume "checkRateLimit s (connectionId (heap s ws)) now1 = (False, s1)"
  with assms show ?thesis by simp
next
  fix s1 assume c: "checkRateLimit s (connectionId (heap s ws)) now1 = (True, s1)"
    and h: "heap s1 = heap s"
  from assms(2,3) show ?thesis
    unfolding handleMessage_def c
    by (cases m) (auto simp: sendToClient_heap sent_if_open_def h)
qed

lemma handleMessage_relayed:
  assumes "checkRateLimit s (connectionId (heap s ws)) now1 = (True, s1)"
    and "message_type m = Some t" "truthy t"
  shows "heap (handleMessage s ws (Some m) now1 now2) =
     heap (case roomId (heap s ws) of
             None \<Rightarrow> s1
           | Some rid \<Rightarrow> broadcastToRoom s1 rid (stamp m (connectionId (heap s ws)) now2) (Some ws))"
proof -
  from checkRateLimit_frame[OF assms(1)] have h: "heap s1 = heap s" by simp
  from assms(2) obtain props where m: "m = JObj props" by (cases m) simp_all
  show ?thesis
    unfolding handleMessage_def assms(1) m
    using assms(2,3) by (simp add: Let_def h m split: option.split)
qed

lemma handleMessage_null:
  "fst (checkRateLimit s (connectionId (heap s ws)) now1) \<Longrightarrow>
   transport (heap (handleMessage s ws (Some JNull) now1 now2) ws) =
     transport (heap s ws) @ sent_if_open s ws parse_error"
  by (simp add: handleMessage_unparsed)

section \<open>The error replies of \<open>handleMessage\<close> (claim C8)\<close>

text \<open>
  Claim C8, as the code has it. An inbound message takes one branch of \<open>handleMessage\<close>.
  A message rejected by the rate limiter, a payload that does not parse, and a parsed
  value other than \<open>null\<close> without a truthy \<open>type\<close> each change nothing of any socket but
  the sender's transport, to which they add one \<open>error\<close> message with the code
  \<open>RATE_LIMIT_EXCEEDED\<close>, \<open>PARSE_ERROR\<close> and \<open>INVALID_MESSAGE\<close> respectively when the
  sender's socket is open, and nothing when it is not; so no other member receives
  anything. A message that is relayed adds nothing to the sender's transport.
\<close>

theorem handleMessage_error_replies:
  "(let s' = handleMessage s ws data now1 now2;
        allowed = fst (checkRateLimit s (connectionId (heap s ws)) now1);
        reply = (\<lambda>text code. (heap s)(ws := (heap s ws)\<lparr>transport := transport (heap s ws) @
                   (if readyState (heap s ws) = OPEN then [Sent (error_message text code)]
                    else [])\<rparr>))
    in (\<not> allowed \<longrightarrow>
          heap s' = reply ''Rate limit exceeded (100 messages/second)'' ''RATE_LIMIT_EXCEEDED'') \<and>
       (allowed \<and> data = None \<longrightarrow>
          heap s' = reply ''Invalid message format - must be valid JSON'' ''PARSE_ERROR'') \<and>
       (allowed \<and> (\<exists>m. data = Some m \<and> m \<noteq> JNull \<and>
            (message_type m = None \<or> (\<exists>t. message_type m = Some t \<and> \<not> truthy t))) \<longrightarrow>
          heap s' = reply ''Message must have a type field'' ''INVALID_MESSAGE'') \<and>
       (allowed \<and> (\<exists>m t. data = Some m \<and> message_type m = Some t \<and> truthy t) \<longrightarrow>
          heap s' ws = heap s ws))"
proof -
  let ?allowed = "fst (checkRateLimit s (connectionId (heap s ws)) now1)"
  have 1: "\<not> ?allowed \<Longrightarrow> heap (handleMessage s ws data now1 now2) =
      (heap s)(ws := (heap s ws)\<lparr>transport := transport (heap s ws) @
         sent_if_open s ws rate_limit_error\<rparr>)"
    by (rule handleMessage_rejected)
  have 2: "?allowed \<and> data = None \<Longrightarrow> heap (handleMessage s ws data now1 now2) =
      (heap s)(ws := (heap s ws)\<lparr>transport := transport (heap s ws) @
         sent_if_open s ws parse_error\<rparr>)"
    by (rule handleMessage_unparsed) simp_all
  have 3: "heap (handleMessage s ws data now1 now2) =
      (heap s)(ws := (heap s ws)\<lparr>transport := transport (heap s ws) @
         sent_if_open s ws invalid_message_error\<rparr>)"
    if "?allowed \<and> (\<exists>m. data = Some m \<and> m \<noteq> JNull \<and>
            (message_type m = None \<or> (\<exists>t. message_type m = Some t \<and> \<not> truthy t)))"
  proof -
    from that obtain m where "data = Some m" "m \<noteq> JNull"
      "message_type m = None \<or> (\<exists>t. message_type m = Some t \<and> \<not> truthy t)" "?allowed"
      by blast
    then show ?thesis
      using handleMessage_untyped[of s ws now1 m now2] by simp
  qed
  have 4: "heap (handleMessage s ws data now1 now2) ws = heap s ws"
    if "?allowed \<and> (\<exists>m t. data = Some m \<and> message_type m = Some t \<and> truthy t)"
  proof -
    from that obtain m t where d: "data = Some m" "message_type m = Some t" "truthy t"
      and a: "?allowed"
      by blast
    from a obtain s1 where c: "checkRateLimit s (connectionId (heap s ws)) now1 = (True, s1)"
      by (cases "checkRateLimit s (connectionId (heap s ws)) now1") simp
    from checkRateLimit_frame[OF c] have h: "heap s1 = heap s" by simp
    show ?thesis
      unfolding d(1) handleMessage_relayed[OF c d(2,3)]
      by (simp add: broadcastToRoom_excluded h split: option.split)
  qed
  show ?thesis
    unfolding Let_def
    using 1 2 3 4
    by (simp add: sent_if_open_def rate_limit_error_def parse_error_def
          invalid_message_error_def)
qed

theorem handleMessage_error_replies_witness:
  "heap (handleMessage (run (new_relay limit3 0)
           [alice, bob, Message 1 (Some content26) 30 30, Message 1 (Some content26) 31 31,
            Message 1 (Some content26) 32 32]) 1 (Some content26) 33 33) 2 =
     heap (run (new_relay limit3 0)
           [alice, bob, Message 1 (Some content26) 30 30, Message 1 (Some content26) 31 31,
            Message 1 (Some content26) 32 32]) 2 \<and>
   transport (heap (handleMessage (run (new_relay limit3 0) [alice, bob]) 1 None 30 30) 1) =
     transport (heap (run (new_relay limit3 0) [alice, bob]) 1) @
       [Sent (error_message ''Invalid message format - must be valid JSON'' ''PARSE_ERROR'')] \<and>
   transport (heap (handleMessage (run (new_relay limit3 0) [alice, bob]) 1 (Some (JObj [])) 30 30) 1) =
     transport (heap (run (new_relay limit3 0) [alice, bob]) 1) @
       [Sent (error_message ''Message must have a type field'' ''INVALID_MESSAGE'')] \<and>
   heap (handleMessage (run (new_relay limit3 0) [alice, bob]) 1 (Some content26) 30 30) 1 =
     heap (run (new_relay limit3 0) [alice, bob]) 1"
proof -
  let ?s = "run (new_relay limit3 0) [alice, bob]"
  let ?s3 = "run (new_relay limit3 0)
           [alice, bob, Message 1 (Some content26) 30 30, Message 1 (Some content26) 31 31,
            Message 1 (Some content26) 32 32]"
  have full: "\<not> fst (checkRateLimit ?s3 (connectionId (heap ?s3 1)) 33)"
    by (simp add: relay_defs limit3_def alice_def bob_def content26_def)
  have allowed: "fst (checkRateLimit ?s (connectionId (heap ?s 1)) 30)"
    and "open": "readyState (heap ?s 1) = OPEN"
    by (simp_all add: relay_defs limit3_def alice_def bob_def)
  have untyped: "\<exists>m. Some (JObj []) = Some m \<and> m \<noteq> JNull \<and>
            (message_type m = None \<or> (\<exists>t. message_type m = Some t \<and> \<not> truthy t))"
    by simp
  have typed: "\<exists>m t. Some content26 = Some m \<and> message_type m = Some t \<and> truthy t"
    by (simp add: content26_def)
  from handleMessage_error_replies[of ?s3 1 "Some content26" 33 33] full
  have 1: "heap (handleMessage ?s3 1 (Some content26) 33 33) 2 = heap ?s3 2"
    by (simp add: Let_def)
  from handleMessage_error_replies[of ?s 1 None 30 30] allowed "open"
  have 2: "transport (heap (handleMessage ?s 1 None 30 30) 1) = transport (heap ?s 1) @
       [Sent (error_message ''Invalid message format - must be valid JSON'' ''PARSE_ERROR'')]"
    by (simp add: Let_def)
  from handleMessage_error_replies[of ?s 1 "Some (JObj [])" 30 30] allowed "open" untyped
  have 3: "transport (heap (handleMessage ?s 1 (Some (JObj [])) 30 30) 1) =
     transport (heap ?s 1) @
       [Sent (error_message ''Message must have a type field'' ''INVALID_MESSAGE'')]"
    by (simp add: Let_def)
  from handleMessage_error_replies[of ?s 1 "Some content26" 30 30] allowed typed
  have 4: "heap (handleMessage ?s 1 (Some content26) 30 30) 1 = heap ?s 1"
    by (simp add: Let_def)
  from 1 2 3 4 show ?thesis by blast
qed

text \<open>
  A socket that the cleanup has closed still has its rate state and can still deliver a
  message. It is no longer open, so the reply to a message without \<open>type\<close> is not sent:
  the sender's transport stays as the cleanup left it.
\<close>

theorem no_error_reply_to_closing_sender:
  "enabled_all (new_relay limit3 0)
     [alice, CleanupTick 86400011, Message 1 (Some (JObj [])) 86400020 86400020] \<and>
   readyState (heap (run (new_relay limit3 0) [alice, CleanupTick 86400011]) 1) = CLOSING \<and>
   fst (checkRateLimit (run (new_relay limit3 0) [alice, CleanupTick 86400011])
          (Some ''00000000000000a1'') 86400020) \<and>
   message_type (JObj []) = None \<and>
   transport (heap (run (new_relay limit3 0)
       [alice, CleanupTick 86400011, Message 1 (Some (JObj [])) 86400020 86400020]) 1) =
     [Sent (connected_message ''00000000000000a1'' ''doc1'' 1), Sent room_expired_message,
      Closed 1000 ''Room expired after 24 hours'']"
  by (simp add: relay_defs limit3_def alice_def)

section \<open>Lemmas: the recipients of a relayed message\<close>

lemma deliver_transport:
  "transport (deliver to m h w) =
     transport (h w) @ (if w \<in> to \<and> readyState (h w) = OPEN then [Sent m] else [])"
  by (simp add: deliver_def)

lemma handleMessage_relay_transport:
  assumes ok: "registry_ok s"
    and c: "checkRateLimit s (connectionId (heap s ws)) now1 = (True, s1)"
    and ty: "message_type m = Some t" "truthy t"
  shows "transport (heap (handleMessage s ws (Some m) now1 now2) w) =
           transport (heap s w) @
             (if w \<in> set (room_of s ws) \<and> w \<noteq> ws \<and> readyState (heap s w) = OPEN
              then [Sent (stamp m (connectionId (heap s ws)) now2)] else [])"
proof -
  from checkRateLimit_frame[OF c] have h: "heap s1 = heap s" and r: "rooms s1 = rooms s"
    by simp_all
  show ?thesis
  proof (cases "roomId (heap s ws)")
    case None
    then show ?thesis
      unfolding handleMessage_relayed[OF c ty] by (simp add: room_of_def h)
  next
    case (Some rid)
    show ?thesis
    proof (cases "map_of (rooms s) rid")
      case None
      with Some show ?thesis
        unfolding handleMessage_relayed[OF c ty]
        by (simp add: room_of_def h r broadcastToRoom_absent)
    next
      case (Some room)
      with ok have d: "distinct room"
        unfolding registry_ok_def by blast
      from Some r have "map_of (rooms s1) rid = Some room" by simp
      from broadcastToRoom_present[OF this d]
      show ?thesis
        unfolding handleMessage_relayed[OF c ty]
        using \<open>roomId (heap s ws) = Some rid\<close> Some
        by (auto simp: room_of_def h deliver_transport)
    qed
  qed
qed

lemma other_room_not_mate:
  assumes ok: "registry_ok s" and "roomId (heap s ws) \<noteq> Some r"
    and "map_of (rooms s) r = Some room" "w \<in> set room"
  shows "w \<notin> set (room_of s ws)"
proof
  assume m: "w \<in> set (room_of s ws)"
  show False
  proof (cases "roomId (heap s ws)")
    case None
    with m show False by (simp add: room_of_def)
  next
    case (Some rid)
    show False
    proof (cases "map_of (rooms s) rid")
      case None
      with m Some show False by (simp add: room_of_def)
    next
      case (Some room')
      with m \<open>roomId (heap s ws) = Some rid\<close> have "w \<in> set room'"
        by (simp add: room_of_def)
      from registry_ok_member[OF ok Some this] registry_ok_member[OF ok assms(3,4)]
        \<open>roomId (heap s ws) = Some rid\<close> assms(2)
      show False by simp
    qed
  qed
qed

section \<open>Lemmas: parsing and printing\<close>

lemma fold_update:
  "map_of (fold (\<lambda>(k, v) acc. AList.update k v acc) props acc) =
     map_of acc ++ map_of (rev props)"
proof (induction props arbitrary: acc)
  case Nil
  then show ?case by simp
next
  case (Cons p props)
  obtain k v where p: "p = (k, v)" by (cases p)
  show ?case
    unfolding p
    by (rule ext) (simp add: Cons.IH update_conv' map_add_def split: option.split)
qed

lemma map_of_last_wins: "map_of (last_wins props) = map_of (rev props)"
  by (simp add: last_wins_def fold_update)

lemma map_of_map_prod:
  "map_of (map (map_prod id f) props) k = map_option f (map_of props k)"
  by (induction props) auto

lemma property_JSON_parse:
  "property (JSON_parse (JObj members)) k = map_option JSON_parse (map_of (rev members) k)"
  by (simp add: map_of_last_wins rev_map map_of_map_prod)

lemma update_fresh: "k \<notin> fst ` set al \<Longrightarrow> AList.update k v al = al @ [(k, v)]"
  by (induction al) auto

lemma fold_update_distinct:
  "distinct (map fst props) \<Longrightarrow> fst ` set props \<inter> fst ` set acc = {} \<Longrightarrow>
   fold (\<lambda>(k, v) acc. AList.update k v acc) props acc = acc @ props"
proof (induction props arbitrary: acc)
  case Nil
  then show ?case by simp
next
  case (Cons p props)
  obtain k v where p: "p = (k, v)" by (cases p)
  from Cons.prems have "k \<notin> fst ` set acc" unfolding p by auto
  then have u: "AList.update k v acc = acc @ [(k, v)]" by (rule update_fresh)
  from Cons.prems have "distinct (map fst props)"
    and "fst ` set props \<inter> fst ` set (acc @ [(k, v)]) = {}"
    unfolding p by auto
  from Cons.IH[OF this] show ?case
    unfolding p by (simp add: u)
qed

lemma last_wins_distinct: "distinct (map fst props) \<Longrightarrow> last_wins props = props"
  by (simp add: last_wins_def fold_update_distinct)

lemma plain_reads_back: "plain v \<Longrightarrow> JSON_stringify (JSON_parse v) = v"
proof (induction v)
  case (JNum n)
  then show ?case by (cases n) simp_all
next
  case (JArr vs)
  then show ?case by (simp add: map_idI)
next
  case (JObj props)
  from JObj.prems have d: "distinct (map fst props)"
    and pl: "\<And>p. p \<in> set props \<Longrightarrow> plain (snd p)"
    by simp_all
  have "map fst (map (map_prod id JSON_parse) props) = map fst props"
    by simp
  with d have "last_wins (map (map_prod id JSON_parse) props) = map (map_prod id JSON_parse) props"
    by (intro last_wins_distinct) simp
  moreover have "map (map_prod id JSON_stringify \<circ> map_prod id JSON_parse) props = props"
  proof (rule map_idI)
    fix p assume m: "p \<in> set props"
    obtain k v where p: "p = (k, v)" by (cases p)
    from m p have "v \<in> Basic_BNFs.snds p" by simp
    from JObj.IH[OF m this] pl[OF m] p
    show "(map_prod id JSON_stringify \<circ> map_prod id JSON_parse) p = p"
      by simp
  qed
  ultimately show ?case by simp
qed simp_all


lemma log2_floor_bounds:
  "1 \<le> a \<Longrightarrow> 2 ^ log2_floor a \<le> a \<and> a < 2 ^ Suc (log2_floor a)"
proof (induction a rule: log2_floor.induct)
  case (1 a)
  show ?case
  proof (cases "a < 2")
    case True
    then have "log2_floor a = 0" by (subst log2_floor.simps) simp
    with True "1.prems" show ?thesis by simp
  next
    case False
    then have s: "log2_floor a = Suc (log2_floor (a / 2))"
      by (subst log2_floor.simps) simp
    from False have "1 \<le> a / 2" by simp
    from "1.IH"[OF False this] show ?thesis
      unfolding s by (simp add: field_simps)
  qed
qed

lemma round_half_even_of_int: "round_half_even (of_int m) = m"
  by (simp add: round_half_even_def)

lemma to_double_of_int:
  assumes "\<bar>n\<bar> < 2 ^ 53"
  shows "to_double (of_int n) = Finite (of_int n)"
proof (cases "n = 0")
  case True
  then show ?thesis by (simp add: to_double_def)
next
  case False
  define a :: rat where "a = \<bar>of_int n\<bar>"
  define e where "e = log2_floor a"
  have a1: "1 \<le> a" using False unfolding a_def
    by (metis abs_of_nonneg dual_order.refl int_one_le_iff_zero_less of_int_1_le_iff of_int_abs
        zero_less_abs_iff abs_ge_zero)
  have a2: "a < 2 ^ 53"
  proof -
    have "a = of_int \<bar>n\<bar>" by (simp add: a_def)
    also have "\<dots> < of_int (2 ^ 53)" using assms by (simp only: of_int_less_iff)
    finally show ?thesis by simp
  qed
  from log2_floor_bounds[OF a1] have b: "(2::rat) ^ e \<le> a" by (simp add: e_def)
  have lt: "(2::rat) ^ e < 2 ^ 53" by (rule le_less_trans[OF b a2])
  have e: "e < 53"
  proof (rule power_less_imp_less_exp)
    show "(1::rat) < 2" by simp
    show "(2::rat) ^ e < 2 ^ 53" by (rule lt)
  qed
  define k where "k = 52 - e"
  have ex: "exponent a = int e" using a1 by (simp add: exponent_def e_def)
  have q: "max (exponent a - 52) (- 1074) = - int k"
    using e unfolding ex k_def by simp
  have pw: "(2::rat) powi (- int k) = 1 / 2 ^ k"
    by (simp add: power_int_def field_simps)
  have m: "a / (1 / 2 ^ k) = of_int (\<bar>n\<bar> * 2 ^ k)"
    by (simp add: a_def)
  have v: "of_int (round_half_even (a / 2 powi (- int k))) * 2 powi (- int k) = a"
    unfolding pw m round_half_even_of_int by (simp add: a_def)
  have big: "\<not> (2::rat) powi 1024 \<le> a"
  proof -
    have "(2::rat) ^ 53 \<le> 2 ^ 1024" by (rule power_increasing) simp_all
    with a2 have "a < (2::rat) ^ 1024" by simp
    then show ?thesis by (simp add: power_int_def)
  qed
  have sg: "sgn (of_int n :: rat) * a = of_int n"
    unfolding a_def by (simp add: sgn_mult_abs)
  have nz: "(of_int n :: rat) \<noteq> 0" using False by simp
  show ?thesis
    unfolding to_double_def Let_def
    using nz q v big sg unfolding a_def[symmetric]
    by (simp add: a_def[symmetric])
qed

lemma plain_int: "\<bar>n\<bar> < 2 ^ 53 \<Longrightarrow> plain (JNum (Finite (of_int n)))"
  by (simp add: to_double_of_int)

lemma to_double_2_53_1: "to_double 9007199254740993 = Finite 9007199254740992"
  by code_simp


lemma round_half_even_ge_floor: "\<lfloor>r\<rfloor> \<le> round_half_even r"
  by (simp add: round_half_even_def Let_def)

lemma to_double_overflow:
  assumes big_y: "2 ^ 1024 \<le> \<bar>y\<bar>"
  shows "to_double y = (if 0 < y then Infinity else NegInfinity)"
proof -
  define x where "x = \<bar>y\<bar>"
  have assms: "2 ^ 1024 \<le> x" using big_y by (simp add: x_def)
  have p: "(1::rat) \<le> 2 ^ 1024" by (rule one_le_power) simp
  have x1: "1 \<le> x" by (rule order_trans[OF p assms])
  then have x0: "0 < x" by simp
  define e where "e = log2_floor x"
  from log2_floor_bounds[OF x1] have lo: "2 ^ e \<le> x" and hi: "x < 2 ^ Suc e"
    by (simp_all add: e_def)
  have lt: "(2::rat) ^ 1024 < 2 ^ Suc e" by (rule le_less_trans[OF assms hi])
  have "1024 < Suc e"
  proof (rule power_less_imp_less_exp)
    show "(1::rat) < 2" by simp
    show "(2::rat) ^ 1024 < 2 ^ Suc e" by (rule lt)
  qed
  then have e: "1024 \<le> e" by simp
  define k where "k = e - 52"
  have ek: "e = 52 + k" using e by (simp add: k_def)
  have ex: "exponent x = int e" using x1 by (simp add: exponent_def e_def)
  have q: "max (exponent x - 52) (- 1074) = int k"
    unfolding ex ek by simp
  have pw: "(2::rat) powi int k = 2 ^ k" by simp
  define r where "r = x / 2 ^ k"
  have "(2::rat) ^ 52 * 2 ^ k \<le> x" using lo unfolding ek by (simp add: power_add)
  then have r52: "2 ^ 52 \<le> r" unfolding r_def by (simp add: field_simps)
  have fl: "(2::int) ^ 52 \<le> \<lfloor>r\<rfloor>"
  proof -
    have "of_int (2 ^ 52) \<le> r" using r52 by simp
    then show ?thesis by (simp only: le_floor_iff)
  qed
  have "(2::int) ^ 52 \<le> round_half_even r"
    by (rule order_trans[OF fl round_half_even_ge_floor])
  then have "(of_int (2 ^ 52) :: rat) \<le> of_int (round_half_even r)"
    by (simp only: of_int_le_iff)
  then have m1: "(2::rat) ^ 52 * 2 ^ k \<le> of_int (round_half_even r) * 2 ^ k"
    by (intro mult_right_mono) simp_all
  have m2: "(2::rat) ^ 1024 \<le> 2 ^ 52 * 2 ^ k"
  proof -
    have "(2::rat) ^ 1024 \<le> 2 ^ e" using e by (intro power_increasing) simp_all
    then show ?thesis unfolding ek by (simp add: power_add)
  qed
  have v: "(2::rat) ^ 1024 \<le> of_int (round_half_even r) * 2 ^ k"
    by (rule order_trans[OF m2 m1])
  have big: "(2::rat) powi 1024 = 2 ^ 1024" by (simp add: power_int_def)
  from x0 have nz: "y \<noteq> 0" by (auto simp: x_def)
  show ?thesis
    unfolding to_double_def Let_def x_def[symmetric] q pw big r_def[symmetric]
    using v nz by simp
qed

lemma beyond_doubles_is_null:
  "2 ^ 1024 \<le> \<bar>x\<bar> \<Longrightarrow> JSON_stringify (JSON_parse (JNum (Finite x))) = JNull"
  by (simp add: to_double_overflow)

lemma ten_to_400_is_null: "JSON_stringify (JSON_parse (JNum (Finite (10 ^ 400)))) = JNull"
proof (rule beyond_doubles_is_null)
  have "(2::rat) ^ 1024 \<le> 10 ^ 400" by simp
  also have "\<dots> \<le> \<bar>10 ^ 400\<bar>" by (rule abs_ge_self)
  finally show "(2::rat) ^ 1024 \<le> \<bar>10 ^ 400\<bar>" .
qed

lemma property_JSON_stringify:
  "property (JSON_stringify (JObj props)) k = map_option JSON_stringify (map_of props k)"
  by (simp add: map_of_map_prod)

section \<open>Relaying a message (claim C2)\<close>

text \<open>
  Claim C2, as the code has it. Let connection A, with the server-assigned id \<open>cid\<close>, send
  a JSON text that passes the rate limiter, is an object, and has a \<open>type\<close> that is truthy
  as \<open>JSON.parse\<close> reads it. What is relayed is \<open>JSON.stringify\<close> of the parsed message
  with \<open>connectionId\<close> set to \<open>cid\<close> and \<open>timestamp\<close> set to the server's clock, whatever
  the client supplied for them. Every member of A's room other than A whose socket is
  open is sent exactly this; A is sent nothing, and no member of another room is sent
  anything. Every other field arrives as \<open>JSON.parse\<close> read it and \<open>JSON.stringify\<close> prints
  it: of a repeated key the last value, each number as the nearest double, and \<open>null\<close> for
  a number beyond the range of the doubles. A field in which every number is a double
  and no object repeats a key arrives unchanged.
\<close>

theorem relay_to_room_members:
  assumes "reachable s"
    and "connectionId (heap s ws) = Some cid"
    and "fst (checkRateLimit s (Some cid) now1)"
    and "map_of (rev members) ''type'' = Some ty" and "truthy (JSON_parse ty)"
  shows "(let message = JSON_parse (JObj members);
              s' = handleMessage s ws (Some message) now1 now2;
              relayed = stamp message (Some cid) now2;
              wire = JSON_stringify relayed
          in (\<forall>w. transport (heap s' w) =
                transport (heap s w) @
                  (if w \<in> set (room_of s ws) \<and> w \<noteq> ws \<and> readyState (heap s w) = OPEN
                   then [Sent relayed] else [])) \<and>
             (\<forall>r room w. roomId (heap s ws) \<noteq> Some r \<and> map_of (rooms s) r = Some room \<and>
                  w \<in> set room \<longrightarrow> transport (heap s' w) = transport (heap s w)) \<and>
             property wire ''connectionId'' = Some (JStr cid) \<and>
             property wire ''timestamp'' = Some (JNum (Finite (of_int now2))) \<and>
             (\<forall>k. k \<noteq> ''connectionId'' \<and> k \<noteq> ''timestamp'' \<longrightarrow>
                property wire k =
                  map_option (\<lambda>v. JSON_stringify (JSON_parse v)) (map_of (rev members) k)) \<and>
             (\<forall>k v. k \<noteq> ''connectionId'' \<and> k \<noteq> ''timestamp'' \<and>
                  map_of (rev members) k = Some v \<and> plain v \<longrightarrow> property wire k = Some v))"
proof -
  define props where "props = last_wins (map (map_prod id JSON_parse) members)"
  define message where "message = JSON_parse (JObj members)"
  define relayed where "relayed = stamp message (Some cid) now2"
  define s' where "s' = handleMessage s ws (Some message) now1 now2"
  have m: "message = JObj props" by (simp add: message_def props_def)
  have look: "map_of props k = map_option JSON_parse (map_of (rev members) k)" for k
    using property_JSON_parse[of members k] by (simp add: props_def)
  have ty: "message_type message = Some (JSON_parse ty)"
    unfolding m using look[of "''type''"] assms(4) by simp
  have rel: "relayed = JObj (AList.update ''timestamp'' (JNum (Finite (of_int now2)))
                         (AList.update ''connectionId'' (JStr cid) props))"
    by (simp add: relayed_def m)
  from assms(1) have ok: "registry_ok s" by (rule reachable_registry_ok)
  from assms(2,3) obtain s1 where
    c: "checkRateLimit s (connectionId (heap s ws)) now1 = (True, s1)"
    by (cases "checkRateLimit s (Some cid) now1") simp
  note tr = handleMessage_relay_transport[OF ok c ty assms(5), of now2]
  have 1: "\<forall>w. transport (heap s' w) =
      transport (heap s w) @
        (if w \<in> set (room_of s ws) \<and> w \<noteq> ws \<and> readyState (heap s w) = OPEN
         then [Sent relayed] else [])"
    using tr unfolding s'_def relayed_def assms(2) by blast
  have 2: "\<forall>r room w. roomId (heap s ws) \<noteq> Some r \<and> map_of (rooms s) r = Some room \<and>
       w \<in> set room \<longrightarrow> transport (heap s' w) = transport (heap s w)"
  proof (intro allI impI)
    fix r room w
    assume "roomId (heap s ws) \<noteq> Some r \<and> map_of (rooms s) r = Some room \<and> w \<in> set room"
    then have "w \<notin> set (room_of s ws)"
      using other_room_not_mate[OF ok] by blast
    then show "transport (heap s' w) = transport (heap s w)"
      using 1 by simp
  qed
  have 3: "property (JSON_stringify relayed) ''connectionId'' = Some (JStr cid)"
    "property (JSON_stringify relayed) ''timestamp'' = Some (JNum (Finite (of_int now2)))"
    unfolding rel property_JSON_stringify by (simp_all add: update_conv')
  have 4: "\<forall>k. k \<noteq> ''connectionId'' \<and> k \<noteq> ''timestamp'' \<longrightarrow>
      property (JSON_stringify relayed) k =
        map_option (\<lambda>v. JSON_stringify (JSON_parse v)) (map_of (rev members) k)"
    unfolding rel property_JSON_stringify
    by (simp add: update_conv' look option.map_comp comp_def)
  have 5: "\<forall>k v. k \<noteq> ''connectionId'' \<and> k \<noteq> ''timestamp'' \<and>
      map_of (rev members) k = Some v \<and> plain v \<longrightarrow>
      property (JSON_stringify relayed) k = Some v"
    using 4 by (simp add: plain_reads_back)
  show ?thesis
    unfolding Let_def
    using 1 2 3 4 5
    unfolding s'_def relayed_def message_def
    by (intro conjI) assumption+
qed

lemma reachable_alice_bob_carol: "reachable (run (new_relay limit3 0) [alice, bob, carol])"
  by (rule reachable_run[OF reachable_new])
     (simp add: relay_defs alice_def bob_def carol_def limit3_def)

theorem relay_to_room_members_witness:
  "transport (heap (handleMessage (run (new_relay limit3 0) [alice, bob, carol]) 1
       (Some (JSON_parse content26)) 30 31) 2) =
     transport (heap (run (new_relay limit3 0) [alice, bob, carol]) 2) @
       [Sent (stamp (JSON_parse content26) (Some ''00000000000000a1'') 31)] \<and>
   transport (heap (handleMessage (run (new_relay limit3 0) [alice, bob, carol]) 1
       (Some (JSON_parse content26)) 30 31) 1) =
     transport (heap (run (new_relay limit3 0) [alice, bob, carol]) 1) \<and>
   transport (heap (handleMessage (run (new_relay limit3 0) [alice, bob, carol]) 1
       (Some (JSON_parse content26)) 30 31) 3) =
     transport (heap (run (new_relay limit3 0) [alice, bob, carol]) 3) \<and>
   property (JSON_stringify (stamp (JSON_parse content26) (Some ''00000000000000a1'') 31))
     ''connectionId'' = Some (JStr ''00000000000000a1'') \<and>
   property (JSON_stringify (stamp (JSON_parse content26) (Some ''00000000000000a1'') 31))
     ''timestamp'' = Some (JNum (Finite 31)) \<and>
   property (JSON_stringify (stamp (JSON_parse content26) (Some ''00000000000000a1'') 31))
     ''data'' = Some (JObj [(''x'', JNum (Finite 1))])"
proof -
  let ?s = "run (new_relay limit3 0) [alice, bob, carol]"
  let ?members = "[(''type'', JStr ''content26''), (''data'', JObj [(''x'', JNum (Finite 1))])]"
  have one: "to_double 1 = Finite 1"
    using to_double_of_int[of 1] by simp
  have h: "connectionId (heap ?s 1) = Some ''00000000000000a1''"
    "fst (checkRateLimit ?s (Some ''00000000000000a1'') 30)"
    "map_of (rev ?members) ''type'' = Some (JStr ''content26'')"
    "truthy (JSON_parse (JStr ''content26''))"
    by (simp_all add: relay_defs limit3_def alice_def bob_def carol_def)
  have v: "room_of ?s 1 = [1, 2]" "readyState (heap ?s 2) = OPEN"
    by (simp_all add: room_of_def relay_defs limit3_def alice_def bob_def carol_def)
  have d: "map_of (rev ?members) ''data'' = Some (JObj [(''x'', JNum (Finite 1))])"
    "plain (JObj [(''x'', JNum (Finite 1))])"
    by (simp_all add: one)
  note t = relay_to_room_members[OF reachable_alice_bob_carol h, of 31,
      unfolded Let_def, folded content26_def]
  note a = t[THEN conjunct1]
  note b = t[THEN conjunct2, THEN conjunct2, THEN conjunct1]
    t[THEN conjunct2, THEN conjunct2, THEN conjunct2, THEN conjunct1]
  note f = t[THEN conjunct2, THEN conjunct2, THEN conjunct2, THEN conjunct2, THEN conjunct2,
      rule_format, of "''data''" "JObj [(''x'', JNum (Finite 1))]"]
  have c: "property (JSON_stringify
        (stamp (JSON_parse content26) (Some ''00000000000000a1'') 31)) ''data'' =
      Some (JObj [(''x'', JNum (Finite 1))])"
  proof (rule f, intro conjI)
    show "''data'' \<noteq> ''connectionId''" "''data'' \<noteq> ''timestamp''" by simp_all
    show "map_of (rev ?members) ''data'' = Some (JObj [(''x'', JNum (Finite 1))])"
      by (rule d(1))
    show "plain (JObj [(''x'', JNum (Finite 1))])" by (rule d(2))
  qed
  from a v have a2: "transport (heap (handleMessage ?s 1 (Some (JSON_parse content26)) 30 31) 2) =
      transport (heap ?s 2) @
        [Sent (stamp (JSON_parse content26) (Some ''00000000000000a1'') 31)]"
    "transport (heap (handleMessage ?s 1 (Some (JSON_parse content26)) 30 31) 1) =
      transport (heap ?s 1)"
    "transport (heap (handleMessage ?s 1 (Some (JSON_parse content26)) 30 31) 3) =
      transport (heap ?s 3)"
    by simp_all
  from b have b': "property (JSON_stringify
        (stamp (JSON_parse content26) (Some ''00000000000000a1'') 31)) ''timestamp'' =
      Some (JNum (Finite 31))"
    by simp
  show ?thesis
    by (intro conjI a2 b(1) b' c)
qed

text \<open>
  A message with the number \<open>9007199254740993\<close>, which is \<open>2^53 + 1\<close> and not a double:
  \<open>JSON.parse\<close> reads it as \<open>9007199254740992\<close>, and that is what the other member of the
  room is sent in the field \<open>data\<close>.
\<close>

theorem relayed_number_is_rounded:
  "enabled_all (new_relay limit3 0)
     [alice, bob,
      Message 1 (Some (JSON_parse (JObj [(''type'', JStr ''content26''),
                                         (''data'', JNum (Finite 9007199254740993))]))) 30 31] \<and>
   transport (heap (run (new_relay limit3 0)
     [alice, bob,
      Message 1 (Some (JSON_parse (JObj [(''type'', JStr ''content26''),
                                         (''data'', JNum (Finite 9007199254740993))]))) 30 31]) 2) =
     [Sent (connected_message ''00000000000000b2'' ''doc1'' 2),
      Sent (JObj [(''type'', JStr ''content26''), (''data'', JNum (Finite 9007199254740992)),
                  (''connectionId'', JStr ''00000000000000a1''),
                  (''timestamp'', JNum (Finite 31))])] \<and>
   JSON_stringify (JObj [(''type'', JStr ''content26''),
                         (''data'', JNum (Finite 9007199254740992)),
                         (''connectionId'', JStr ''00000000000000a1''),
                         (''timestamp'', JNum (Finite 31))]) =
     JObj [(''type'', JStr ''content26''), (''data'', JNum (Finite 9007199254740992)),
           (''connectionId'', JStr ''00000000000000a1''), (''timestamp'', JNum (Finite 31))]"
  by (simp add: relay_defs limit3_def alice_def bob_def last_wins_def to_double_2_53_1)

section \<open>Lemmas: The sweep and the sockets\<close>

lemma expire_room_heap:
  "map_of (rooms s) a = Some room \<Longrightarrow> distinct room \<Longrightarrow>
   heap (expire_room a s) = expel (set room) (heap s)"
  by (simp add: expire_room_def fold_close)

lemma expire_room_absent: "map_of (rooms s) a = None \<Longrightarrow> expire_room a s = s"
  by (simp add: expire_room_def)

lemma expire_room_non_member:
  assumes ok: "registry_ok s" and out: "\<forall>r room. map_of (rooms s) r = Some room \<longrightarrow> w \<notin> set room"
  shows "heap (expire_room a s) w = heap s w"
proof (cases "map_of (rooms s) a")
  case None
  then show ?thesis by (simp add: expire_room_absent)
next
  case (Some room)
  with ok have "distinct room" unfolding registry_ok_def by blast
  from expire_room_heap[OF Some this] out Some show ?thesis
    by (simp add: expel_def)
qed

lemma fold_expire_room_non_member:
  "registry_ok s \<Longrightarrow> \<forall>r room. map_of (rooms s) r = Some room \<longrightarrow> w \<notin> set room \<Longrightarrow>
   heap (fold expire_room rs s) w = heap s w"
proof (induction rs arbitrary: s)
  case Nil
  then show ?case by simp
next
  case (Cons a rs)
  have "registry_ok (expire_room a s)"
    using Cons.prems(1) by (rule registry_ok_expire_room)
  moreover have "\<forall>r room. map_of (rooms (expire_room a s)) r = Some room \<longrightarrow> w \<notin> set room"
    using Cons.prems(2) by (auto simp: expire_room_fields delete_conv' split: if_splits)
  ultimately have "heap (fold expire_room rs (expire_room a s)) w = heap (expire_room a s) w"
    by (rule Cons.IH)
  then show ?case
    using expire_room_non_member[OF Cons.prems] by simp
qed

lemma fold_expire_room_gone:
  "map_of (rooms s) r = None \<Longrightarrow> map_of (roomExpiry s) r = None \<Longrightarrow>
   map_of (rooms (fold expire_room rs s)) r = None \<and>
   map_of (roomExpiry (fold expire_room rs s)) r = None"
proof (induction rs arbitrary: s)
  case Nil
  then show ?case by simp
next
  case (Cons a rs)
  have "map_of (rooms (expire_room a s)) r = None"
    "map_of (roomExpiry (expire_room a s)) r = None"
    using Cons.prems by (simp_all add: expire_room_fields delete_conv')
  from Cons.IH[OF this] show ?case by simp
qed

lemma fold_expire_room_member:
  assumes "registry_ok s" "map_of (rooms s) r = Some room" "w \<in> set room" "r \<in> set rs"
  shows "map_of (rooms (fold expire_room rs s)) r = None \<and>
         map_of (roomExpiry (fold expire_room rs s)) r = None \<and>
         heap (fold expire_room rs s) w = expel {w} (heap s) w"
  using assms
proof (induction rs arbitrary: s)
  case Nil
  then show ?case by simp
next
  case (Cons a rs)
  note ok = Cons.prems(1) and room = Cons.prems(2) and mem = Cons.prems(3)
  let ?s1 = "expire_room a s"
  have ok1: "registry_ok ?s1" using ok by (rule registry_ok_expire_room)
  from registry_ok_member[OF ok room mem] have d: "distinct room"
    and rw: "roomId (heap s w) = Some r" by simp_all
  show ?case
  proof (cases "a = r")
    case True
    have h1: "heap ?s1 w = expel {w} (heap s) w"
      using expire_room_heap[OF room d] mem True by (simp add: expel_def)
    have gone: "map_of (rooms ?s1) r = None" "map_of (roomExpiry ?s1) r = None"
      using room True by (simp_all add: expire_room_fields delete_conv')
    have out: "\<forall>r' room'. map_of (rooms ?s1) r' = Some room' \<longrightarrow> w \<notin> set room'"
    proof (intro allI impI notI)
      fix r' room' assume a: "map_of (rooms ?s1) r' = Some room'" and b: "w \<in> set room'"
      from a True have "r' \<noteq> r" "map_of (rooms s) r' = Some room'"
        by (auto simp: expire_room_fields delete_conv' split: if_splits)
      with registry_ok_member[OF ok this(2) b] rw show False by simp
    qed
    from fold_expire_room_gone[OF gone, of rs] fold_expire_room_non_member[OF ok1 out, of rs] h1
    show ?thesis by simp
  next
    case False
    with Cons.prems(4) have in_rs: "r \<in> set rs" by simp
    have room1: "map_of (rooms ?s1) r = Some room"
      using room False by (simp add: expire_room_fields delete_conv')
    have h1: "heap ?s1 w = heap s w"
    proof (cases "map_of (rooms s) a")
      case None
      then show ?thesis by (simp add: expire_room_absent)
    next
      case (Some room_a)
      from ok Some have da: "distinct room_a" unfolding registry_ok_def by blast
      have "w \<notin> set room_a"
      proof
        assume "w \<in> set room_a"
        from registry_ok_member[OF ok Some this] rw False show False by simp
      qed
      with expire_room_heap[OF Some da] show ?thesis by (simp add: expel_def)
    qed
    from Cons.IH[OF ok1 room1 mem in_rs] h1 show ?thesis
      by (simp add: expel_def)
  qed
qed

lemma expired_in_expiredRooms:
  "map_of (roomExpiry s) r = Some e \<Longrightarrow> e < now \<Longrightarrow> r \<in> set (expiredRooms s now)"
  by (force simp: expiredRooms_def dest: map_of_SomeD)

section \<open>The cleanup of expired rooms (claim C9)\<close>

text \<open>
  Claim C9, as the code has it. Let the expiry deadline of a room be strictly in the past
  when the cleanup callback runs. After that one run the room is in neither map, and
  \<open>ws.close(1000, 'Room expired after 24 hours')\<close> has been called on every socket that
  was a member; the members whose socket was open have been sent the \<open>room-expired\<close>
  message just before, the others have not been sent it.
\<close>

theorem cleanup_expires_room:
  assumes "reachable s"
    and "map_of (rooms s) r = Some room" and "map_of (roomExpiry s) r = Some e" and "e < now"
  shows "map_of (rooms (cleanup s now)) r = None \<and>
         map_of (roomExpiry (cleanup s now)) r = None \<and>
         (\<forall>w\<in>set room.
            transport (heap (cleanup s now) w) =
              transport (heap s w) @
              (if readyState (heap s w) = OPEN then [Sent room_expired_message] else []) @
              [Closed 1000 ''Room expired after 24 hours''])"
proof -
  from assms(1) have ok: "registry_ok s" by (rule reachable_registry_ok)
  from expired_in_expiredRooms[OF assms(3,4)] have in_rs: "r \<in> set (expiredRooms s now)" .
  then have c: "cleanup s now = fold expire_room (expiredRooms s now) s"
    by (auto simp: cleanup_def)
  from ok assms(2) have "room \<noteq> []"
    unfolding registry_ok_def by blast
  then obtain w0 where "w0 \<in> set room" by (cases room) auto
  from fold_expire_room_member[OF ok assms(2) this in_rs]
  have gone: "map_of (rooms (cleanup s now)) r = None"
    "map_of (roomExpiry (cleanup s now)) r = None"
    unfolding c by simp_all
  have "\<forall>w\<in>set room.
            transport (heap (cleanup s now) w) =
              transport (heap s w) @
              (if readyState (heap s w) = OPEN then [Sent room_expired_message] else []) @
              [Closed 1000 ''Room expired after 24 hours'']"
  proof
    fix w assume "w \<in> set room"
    from fold_expire_room_member[OF ok assms(2) this in_rs]
    show "transport (heap (cleanup s now) w) =
              transport (heap s w) @
              (if readyState (heap s w) = OPEN then [Sent room_expired_message] else []) @
              [Closed 1000 ''Room expired after 24 hours'']"
      unfolding c by (simp add: expel_def)
  qed
  with gone show ?thesis by blast
qed

lemma reachable_alice_bob: "reachable (run (new_relay limit3 0) [alice, bob])"
  by (rule reachable_run[OF reachable_new])
     (simp add: relay_defs alice_def bob_def limit3_def)

theorem cleanup_expires_room_witness:
  "map_of (rooms (cleanup (run (new_relay limit3 0) [alice, bob]) 86400011)) ''doc1'' = None \<and>
   map_of (roomExpiry (cleanup (run (new_relay limit3 0) [alice, bob]) 86400011)) ''doc1'' = None \<and>
   transport (heap (cleanup (run (new_relay limit3 0) [alice, bob]) 86400011) 2) =
     transport (heap (run (new_relay limit3 0) [alice, bob]) 2) @
       [Sent room_expired_message, Closed 1000 ''Room expired after 24 hours'']"
proof -
  let ?s = "run (new_relay limit3 0) [alice, bob]"
  have h: "map_of (rooms ?s) ''doc1'' = Some [1, 2]"
    "map_of (roomExpiry ?s) ''doc1'' = Some 86400010" "(86400010::int) < 86400011"
    and o: "readyState (heap ?s 2) = OPEN"
    by (simp_all add: relay_defs limit3_def alice_def bob_def)
  from cleanup_expires_room[OF reachable_alice_bob h] o show ?thesis
    by simp
qed

text \<open>
  A member whose socket is already closing when the cleanup runs (the peer has started
  the closing handshake, the \<open>close\<close> event has not been delivered yet) is not sent the
  \<open>room-expired\<close> message: \<open>sendToClient\<close> skips a socket that is not open.
\<close>

theorem closing_member_not_notified:
  "enabled_all (new_relay limit3 0) [alice, TransportState 1 CLOSING, CleanupTick 86400011] \<and>
   map_of (rooms (run (new_relay limit3 0) [alice, TransportState 1 CLOSING])) ''doc1'' =
     Some [1] \<and>
   map_of (roomExpiry (run (new_relay limit3 0) [alice, TransportState 1 CLOSING])) ''doc1'' =
     Some 86400010 \<and>
   transport (heap (run (new_relay limit3 0)
       [alice, TransportState 1 CLOSING, CleanupTick 86400011]) 1) =
     [Sent (connected_message ''00000000000000a1'' ''doc1'' 1),
      Closed 1000 ''Room expired after 24 hours'']"
  by (simp add: relay_defs limit3_def alice_def)

section \<open>Lemmas: Disconnecting twice\<close>

lemma Set_delete_idem: "Set_delete ws (Set_delete ws room) = Set_delete ws room"
  by (simp add: Set_delete_def)

lemma handleDisconnection_twice_registry:
  "rooms (handleDisconnection (handleDisconnection s ws) ws) = rooms (handleDisconnection s ws) \<and>
   roomExpiry (handleDisconnection (handleDisconnection s ws) ws) =
     roomExpiry (handleDisconnection s ws) \<and>
   userRates (handleDisconnection (handleDisconnection s ws) ws) =
     userRates (handleDisconnection s ws)"
proof (cases "\<exists>rid cid room. roomId (heap s ws) = Some rid \<and> connectionId (heap s ws) = Some cid \<and>
    rid \<noteq> [] \<and> cid \<noteq> [] \<and> map_of (rooms s) rid = Some room")
  case False
  then have "handleDisconnection s ws = s"
    by (intro handleDisconnection_noop) (metis option.exhaust)
  then show ?thesis by simp
next
  case True
  then obtain rid cid room where a: "roomId (heap s ws) = Some rid"
    "connectionId (heap s ws) = Some cid" "rid \<noteq> []" "cid \<noteq> []"
    and room: "map_of (rooms s) rid = Some room"
    by blast
  let ?s1 = "handleDisconnection s ws"
  let ?room1 = "Set_delete ws room"
  have a1: "roomId (heap ?s1 ws) = Some rid" "connectionId (heap ?s1 ws) = Some cid"
    "rid \<noteq> []" "cid \<noteq> []"
    using a by simp_all
  note f = handleDisconnection_fields[OF a room]
  show ?thesis
  proof (cases "?room1 = []")
    case True
    then have "map_of (rooms ?s1) rid = None"
      by (simp add: f(2) delete_conv')
    then have "handleDisconnection ?s1 ws = ?s1"
      using a1(1) by (intro handleDisconnection_noop) simp
    then show ?thesis by simp
  next
    case False
    then have room1: "map_of (rooms ?s1) rid = Some ?room1"
      by (simp add: f(2) update_conv')
    note g = handleDisconnection_fields[OF a1 room1]
    show ?thesis
      using False room1
      by (simp add: g(2,3,4) Set_delete_idem update_triv f(4) delete_idem)
  qed
qed

section \<open>Lemmas: the ids of the sockets\<close>

lemma ids_ok_cong:
  "ids_ok s \<Longrightarrow> (\<And>w. roomId (heap s' w) = roomId (heap s w)) \<Longrightarrow>
   (\<And>w. connectionId (heap s' w) = connectionId (heap s w)) \<Longrightarrow> ids_ok s'"
  by (simp add: ids_ok_def)

lemma handleMessage_ids [simp]:
  "connectionId (heap (handleMessage s ws data now1 now2) w) = connectionId (heap s w)"
  "roomId (heap (handleMessage s ws data now1 now2) w) = roomId (heap s w)"
proof -
  obtain ok s1 where c: "checkRateLimit s (connectionId (heap s ws)) now1 = (ok, s1)"
    by (cases "checkRateLimit s (connectionId (heap s ws)) now1")
  from checkRateLimit_frame[OF c] have h: "heap s1 = heap s" by simp
  show "connectionId (heap (handleMessage s ws data now1 now2) w) = connectionId (heap s w)"
    "roomId (heap (handleMessage s ws data now1 now2) w) = roomId (heap s w)"
    unfolding handleMessage_def c
    by (auto simp: Let_def h split: option.split json.split bool.split)
qed

lemma fold_expire_room_ids:
  "connectionId (heap (fold expire_room rs s) w) = connectionId (heap s w) \<and>
   roomId (heap (fold expire_room rs s) w) = roomId (heap s w)"
  by (induction rs arbitrary: s) (simp_all add: expire_room_fields)

lemma cleanup_ids [simp]:
  "connectionId (heap (cleanup s now) w) = connectionId (heap s w)"
  "roomId (heap (cleanup s now) w) = roomId (heap s w)"
  by (simp_all add: cleanup_def fold_expire_room_ids)

lemma ids_ok_handleConnection:
  assumes "ids_ok s" "cid \<noteq> []"
  shows "ids_ok (handleConnection s ws pathname vs cid now1 now2 now3)"
proof (cases "resolve_roomId pathname vs")
  case None
  with assms(1) show ?thesis
    by (auto simp: handleConnection_rejected elim!: ids_ok_cong)
next
  case (Some rid)
  show ?thesis
  proof (cases "roomId_format rid")
    case False
    with Some assms(1) show ?thesis
      by (auto simp: handleConnection_rejected elim!: ids_ok_cong)
  next
    case True
    then have "rid \<noteq> []" by (simp add: roomId_format_def)
    with assms show ?thesis
      unfolding handleConnection_accepted[OF Some True]
      by (simp add: ids_ok_def joined_fields)
  qed
qed

lemma ids_ok_step: "ids_ok s \<Longrightarrow> enabled s e \<Longrightarrow> ids_ok (step s e)"
proof (cases e)
  case (Connection ws pathname vals cid now1 now2 now3)
  assume "ids_ok s" "enabled s e"
  with Connection show ?thesis
    by (auto simp: hex_id_def intro!: ids_ok_handleConnection)
qed (auto elim!: ids_ok_cong)

lemma reachable_ids_ok: "reachable s \<Longrightarrow> ids_ok s"
proof (induction rule: reachable.induct)
  case (reachable_new c now)
  show ?case by (simp add: ids_ok_def new_relay_def fresh_socket_def)
next
  case (reachable_step s e)
  then show ?case by (simp add: ids_ok_step)
qed

lemma handleDisconnection_again:
  assumes r: "reachable s"
    and ids: "roomId (heap s ws) = Some rid" "connectionId (heap s ws) = Some cid"
    and left: "map_of (rooms (handleDisconnection s ws)) rid = Some room1"
  shows "disconnectionsTotal (stats (handleDisconnection s ws)) =
           disconnectionsTotal (stats s) + 1"
    and "disconnectionsTotal (stats (handleDisconnection (handleDisconnection s ws) ws)) =
           disconnectionsTotal (stats (handleDisconnection s ws)) + 1"
    and "transport (heap (handleDisconnection (handleDisconnection s ws) ws) w) =
           transport (heap (handleDisconnection s ws) w) @
             (if w \<in> set room1 \<and> readyState (heap (handleDisconnection s ws) w) = OPEN
              then [Sent (user_left_message cid (int (length room1)))] else [])"
    and "transport (heap (handleDisconnection s ws) w) =
           transport (heap s w) @
             (if w \<in> set room1 \<and> readyState (heap s w) = OPEN
              then [Sent (user_left_message cid (int (length room1)))] else [])"
proof -
  let ?s1 = "handleDisconnection s ws"
  from r have ok: "registry_ok s" and io: "ids_ok s"
    by (simp_all add: reachable_registry_ok reachable_ids_ok)
  from io ids have ne: "rid \<noteq> []" "cid \<noteq> []"
    unfolding ids_ok_def by metis+
  have ok1: "registry_ok ?s1" using ok by (rule registry_ok_handleDisconnection)
  from ok1 left have d1: "distinct room1" unfolding registry_ok_def by blast
  obtain room where room: "map_of (rooms s) rid = Some room"
  proof (cases "map_of (rooms s) rid")
    case None
    then have "?s1 = s" using ids(1) by (intro handleDisconnection_noop) simp
    with None left show ?thesis by simp
  next
    case (Some room)
    then show ?thesis by (rule that)
  qed
  note f = handleDisconnection_fields[OF ids ne room]
  show "disconnectionsTotal (stats ?s1) = disconnectionsTotal (stats s) + 1"
    by (simp add: f(5))
  have a1: "roomId (heap ?s1 ws) = Some rid" "connectionId (heap ?s1 ws) = Some cid"
    using ids by simp_all
  note g = handleDisconnection_fields[OF a1 ne left]
  show "disconnectionsTotal (stats (handleDisconnection ?s1 ws)) =
      disconnectionsTotal (stats ?s1) + 1"
    by (simp add: g(5))
  from left f(2) have r1: "room1 = Set_delete ws room"
    by (auto simp: delete_conv' update_conv' split: if_splits)
  then have again: "Set_delete ws room1 = room1" by (simp add: Set_delete_idem)
  let ?t = "?s1\<lparr>rooms := AList.update rid room1 (rooms ?s1),
                 stats := (stats ?s1)\<lparr>disconnectionsTotal :=
                            disconnectionsTotal (stats ?s1) + 1\<rparr>\<rparr>"
  have "map_of (rooms ?t) rid = Some room1" by (simp add: update_conv')
  from broadcastToRoom_present[OF this d1,
      of "user_left_message cid (int (length room1))" None]
  show "transport (heap (handleDisconnection ?s1 ws) w) =
           transport (heap ?s1 w) @
             (if w \<in> set room1 \<and> readyState (heap ?s1 w) = OPEN
              then [Sent (user_left_message cid (int (length room1)))] else [])"
    unfolding g(6) again by (simp add: deliver_def)
  let ?u = "s\<lparr>rooms := AList.update rid room1 (rooms s),
                stats := (stats s)\<lparr>disconnectionsTotal := disconnectionsTotal (stats s) + 1\<rparr>\<rparr>"
  have "map_of (rooms ?u) rid = Some room1" by (simp add: update_conv')
  from broadcastToRoom_present[OF this d1,
      of "user_left_message cid (int (length room1))" None]
  show "transport (heap ?s1 w) =
           transport (heap s w) @
             (if w \<in> set room1 \<and> readyState (heap s w) = OPEN
              then [Sent (user_left_message cid (int (length room1)))] else [])"
    unfolding f(6) r1[symmetric] by (simp add: deliver_def)
qed

section \<open>Disconnecting twice (claim C4)\<close>

text \<open>
  Claim C4, as the code has it. Running \<open>handleDisconnection\<close> a second time for the same
  socket leaves the rooms, the expiry deadlines and the rate states as the first run left
  them: the membership is not reduced twice. When the first run left no room under the
  socket's room id (the socket was the last member, or the room was already gone), the
  second run changes nothing at all: nothing is broadcast and nothing is counted. When
  the first run left the room with its other members, in a reachable state, both runs go
  to the end: each of them adds one to \<open>disconnectionsTotal\<close>, and each of them sends the
  same \<open>user-left\<close> message to every remaining member whose socket is open, so that such
  a member is sent it twice.
\<close>

theorem handleDisconnection_twice:
  "(let s1 = handleDisconnection s ws; s2 = handleDisconnection s1 ws
    in rooms s2 = rooms s1 \<and> roomExpiry s2 = roomExpiry s1 \<and> userRates s2 = userRates s1 \<and>
       ((\<forall>rid. roomId (heap s ws) = Some rid \<longrightarrow> map_of (rooms s1) rid = None) \<longrightarrow> s2 = s1) \<and>
       (\<forall>rid cid room1.
          reachable s \<and> roomId (heap s ws) = Some rid \<and> connectionId (heap s ws) = Some cid \<and>
          map_of (rooms s1) rid = Some room1 \<longrightarrow>
            disconnectionsTotal (stats s1) = disconnectionsTotal (stats s) + 1 \<and>
            disconnectionsTotal (stats s2) = disconnectionsTotal (stats s1) + 1 \<and>
            (\<forall>w. transport (heap s1 w) =
                   transport (heap s w) @
                     (if w \<in> set room1 \<and> readyState (heap s w) = OPEN
                      then [Sent (user_left_message cid (int (length room1)))] else []) \<and>
                 transport (heap s2 w) =
                   transport (heap s1 w) @
                     (if w \<in> set room1 \<and> readyState (heap s1 w) = OPEN
                      then [Sent (user_left_message cid (int (length room1)))] else []))))"
proof -
  have A: "(\<forall>rid. roomId (heap s ws) = Some rid \<longrightarrow>
        map_of (rooms (handleDisconnection s ws)) rid = None) \<longrightarrow>
      handleDisconnection (handleDisconnection s ws) ws = handleDisconnection s ws"
  proof (rule impI, rule handleDisconnection_noop)
    assume h: "\<forall>rid. roomId (heap s ws) = Some rid \<longrightarrow>
        map_of (rooms (handleDisconnection s ws)) rid = None"
    show "roomId (heap (handleDisconnection s ws) ws) = None \<or>
      connectionId (heap (handleDisconnection s ws) ws) = None \<or>
      roomId (heap (handleDisconnection s ws) ws) = Some [] \<or>
      connectionId (heap (handleDisconnection s ws) ws) = Some [] \<or>
      (\<exists>rid. roomId (heap (handleDisconnection s ws) ws) = Some rid \<and>
         map_of (rooms (handleDisconnection s ws)) rid = None)"
      using h by (cases "roomId (heap s ws)") simp_all
  qed
  have B: "\<forall>rid cid room1.
          reachable s \<and> roomId (heap s ws) = Some rid \<and> connectionId (heap s ws) = Some cid \<and>
          map_of (rooms (handleDisconnection s ws)) rid = Some room1 \<longrightarrow>
            disconnectionsTotal (stats (handleDisconnection s ws)) =
              disconnectionsTotal (stats s) + 1 \<and>
            disconnectionsTotal (stats (handleDisconnection (handleDisconnection s ws) ws)) =
              disconnectionsTotal (stats (handleDisconnection s ws)) + 1 \<and>
            (\<forall>w. transport (heap (handleDisconnection s ws) w) =
                   transport (heap s w) @
                     (if w \<in> set room1 \<and> readyState (heap s w) = OPEN
                      then [Sent (user_left_message cid (int (length room1)))] else []) \<and>
                 transport (heap (handleDisconnection (handleDisconnection s ws) ws) w) =
                   transport (heap (handleDisconnection s ws) w) @
                     (if w \<in> set room1 \<and> readyState (heap (handleDisconnection s ws) w) = OPEN
                      then [Sent (user_left_message cid (int (length room1)))] else []))"
  proof (intro allI impI)
    fix rid cid room1 w
    assume a: "reachable s \<and> roomId (heap s ws) = Some rid \<and>
      connectionId (heap s ws) = Some cid \<and>
      map_of (rooms (handleDisconnection s ws)) rid = Some room1"
    then have r: "reachable s" and i: "roomId (heap s ws) = Some rid"
      "connectionId (heap s ws) = Some cid"
      and l: "map_of (rooms (handleDisconnection s ws)) rid = Some room1"
      by simp_all
    note x = handleDisconnection_again[OF r i l]
    show "disconnectionsTotal (stats (handleDisconnection s ws)) =
              disconnectionsTotal (stats s) + 1 \<and>
            disconnectionsTotal (stats (handleDisconnection (handleDisconnection s ws) ws)) =
              disconnectionsTotal (stats (handleDisconnection s ws)) + 1 \<and>
            (\<forall>w. transport (heap (handleDisconnection s ws) w) =
                   transport (heap s w) @
                     (if w \<in> set room1 \<and> readyState (heap s w) = OPEN
                      then [Sent (user_left_message cid (int (length room1)))] else []) \<and>
                 transport (heap (handleDisconnection (handleDisconnection s ws) ws) w) =
                   transport (heap (handleDisconnection s ws) w) @
                     (if w \<in> set room1 \<and> readyState (heap (handleDisconnection s ws) w) = OPEN
                      then [Sent (user_left_message cid (int (length room1)))] else []))"
      using x(1) x(2) x(3) x(4) by blast
  qed
  from handleDisconnection_twice_registry[of s ws]
  have c1: "rooms (handleDisconnection (handleDisconnection s ws) ws) =
      rooms (handleDisconnection s ws)"
    and c2: "roomExpiry (handleDisconnection (handleDisconnection s ws) ws) =
      roomExpiry (handleDisconnection s ws)"
    and c3: "userRates (handleDisconnection (handleDisconnection s ws) ws) =
      userRates (handleDisconnection s ws)"
    by simp_all
  show ?thesis
    unfolding Let_def by (rule conjI[OF c1 conjI[OF c2 conjI[OF c3 conjI[OF A B]]]])
qed

theorem handleDisconnection_twice_witness:
  "handleDisconnection (handleDisconnection (run (new_relay limit3 0) [alice]) 1) 1 =
     handleDisconnection (run (new_relay limit3 0) [alice]) 1 \<and>
   rooms (handleDisconnection (run (new_relay limit3 0) [alice]) 1) = [] \<and>
   map_of (rooms (handleDisconnection (run (new_relay limit3 0) [alice, bob]) 1)) ''doc1'' =
     Some [2] \<and>
   disconnectionsTotal (stats (handleDisconnection
       (handleDisconnection (run (new_relay limit3 0) [alice, bob]) 1) 1)) =
     disconnectionsTotal (stats (run (new_relay limit3 0) [alice, bob])) + 1 + 1 \<and>
   transport (heap (handleDisconnection
       (handleDisconnection (run (new_relay limit3 0) [alice, bob]) 1) 1) 2) =
     transport (heap (run (new_relay limit3 0) [alice, bob]) 2) @
       [Sent (user_left_message ''00000000000000a1'' 1),
        Sent (user_left_message ''00000000000000a1'' 1)]"
proof -
  let ?s = "run (new_relay limit3 0) [alice]"
  let ?t = "run (new_relay limit3 0) [alice, bob]"
  have r: "rooms (handleDisconnection ?s 1) = []"
    by (simp add: relay_defs limit3_def alice_def)
  then have "\<forall>rid. roomId (heap ?s 1) = Some rid \<longrightarrow>
      map_of (rooms (handleDisconnection ?s 1)) rid = None"
    by simp
  with handleDisconnection_twice[of ?s 1] r
  have 1: "handleDisconnection (handleDisconnection ?s 1) 1 = handleDisconnection ?s 1 \<and>
      rooms (handleDisconnection ?s 1) = []"
    by (simp add: Let_def)
  have h: "roomId (heap ?t 1) = Some ''doc1''"
    "connectionId (heap ?t 1) = Some ''00000000000000a1''"
    "map_of (rooms (handleDisconnection ?t 1)) ''doc1'' = Some [2]"
    and o: "readyState (heap ?t 2) = OPEN" "readyState (heap (handleDisconnection ?t 1) 2) = OPEN"
    by (simp_all add: relay_defs limit3_def alice_def bob_def)
  from handleDisconnection_twice[of ?t 1] reachable_alice_bob h
  have "disconnectionsTotal (stats (handleDisconnection ?t 1)) =
          disconnectionsTotal (stats ?t) + 1 \<and>
        disconnectionsTotal (stats (handleDisconnection (handleDisconnection ?t 1) 1)) =
          disconnectionsTotal (stats (handleDisconnection ?t 1)) + 1 \<and>
        (\<forall>w. transport (heap (handleDisconnection ?t 1) w) =
               transport (heap ?t w) @
                 (if w \<in> set [2] \<and> readyState (heap ?t w) = OPEN
                  then [Sent (user_left_message ''00000000000000a1'' (int (length [2::nat])))]
                  else []) \<and>
             transport (heap (handleDisconnection (handleDisconnection ?t 1) 1) w) =
               transport (heap (handleDisconnection ?t 1) w) @
                 (if w \<in> set [2] \<and> readyState (heap (handleDisconnection ?t 1) w) = OPEN
                  then [Sent (user_left_message ''00000000000000a1'' (int (length [2::nat])))]
                  else []))"
    unfolding Let_def by blast
  then have 2: "disconnectionsTotal (stats (handleDisconnection (handleDisconnection ?t 1) 1)) =
      disconnectionsTotal (stats ?t) + 1 + 1 \<and>
    transport (heap (handleDisconnection (handleDisconnection ?t 1) 1) 2) =
      transport (heap ?t 2) @
        [Sent (user_left_message ''00000000000000a1'' 1),
         Sent (user_left_message ''00000000000000a1'' 1)]"
    using o by simp
  from 1 2 h(3) show ?thesis by blast
qed

text \<open>
  With another member left in the room, the \<open>error\<close> and the \<open>close\<close> event of one socket
  run \<open>handleDisconnection\<close> to the end twice: the remaining member is sent \<open>user-left\<close>
  twice, and \<open>disconnectionsTotal\<close> counts two.
\<close>

theorem second_disconnect_broadcasts_and_counts:
  "enabled_all (new_relay limit3 0) [alice, bob, ErrorEvent 1, CloseEvent 1] \<and>
   disconnectionsTotal (stats (run (new_relay limit3 0) [alice, bob, ErrorEvent 1])) = 1 \<and>
   disconnectionsTotal (stats (run (new_relay limit3 0) [alice, bob, ErrorEvent 1, CloseEvent 1]))
     = 2 \<and>
   transport (heap (run (new_relay limit3 0) [alice, bob, ErrorEvent 1]) 2) =
     [Sent (connected_message ''00000000000000b2'' ''doc1'' 2),
      Sent (user_left_message ''00000000000000a1'' 1)] \<and>
   transport (heap (run (new_relay limit3 0) [alice, bob, ErrorEvent 1, CloseEvent 1]) 2) =
     [Sent (connected_message ''00000000000000b2'' ''doc1'' 2),
      Sent (user_left_message ''00000000000000a1'' 1),
      Sent (user_left_message ''00000000000000a1'' 1)]"
  by (simp add: relay_defs limit3_def alice_def bob_def)

section \<open>Rate state after the sweep (claim C6)\<close>

text \<open>
  Claim C6 says that the keys of \<open>userRates\<close> are the connection ids of the members of
  the rooms, also after the cleanup has expired a room and the \<open>close\<close> events of its
  members have run. The cleanup deletes the room itself; \<open>handleDisconnection\<close> then finds
  no room and returns before it reaches \<open>userRates.delete\<close>. One connection, the cleanup
  after the deadline and the \<open>close\<close> event of the socket leave a relay without rooms
  that still holds the rate state of the connection.
\<close>

theorem rate_state_survives_expiry:
  "enabled_all (new_relay limit3 0) [alice, CleanupTick 86400011, CloseEvent 1] \<and>
   rooms (run (new_relay limit3 0) [alice, CleanupTick 86400011, CloseEvent 1]) = [] \<and>
   userRates (run (new_relay limit3 0) [alice, CleanupTick 86400011, CloseEvent 1]) =
     [(''00000000000000a1'', \<lparr>count = 0, resetTime = 1010\<rparr>)]"
  by (simp add: relay_defs limit3_def alice_def)

text \<open>
  The earlier revision of \<open>handleDisconnection\<close> does not return when the room is gone:
  at the same point it removes the rate state.
\<close>

lemma earlier_revision_removes_rate_state:
  "userRates (handleDisconnection_earlier
     (run (new_relay limit3 0) [alice, CleanupTick 86400011]) 1) = []"
  by (simp add: handleDisconnection_earlier_def relay_defs limit3_def alice_def)

end
